theory Spec2Isabelle
  imports Complex_Main "HOL-Library.Log_Nat"
begin

section \<open>Python floats\<close>

text \<open>
  The bot computes with Python \<open>float\<close>s, which are IEEE 754 binary64 numbers. A float is
  modelled by its exact rational value or one of the three special values. The two signed
  zeros are identified: they compare equal and no operation used by the bot tells them
  apart in a returned value.
\<close>

datatype pyfloat = Fin rat | PInf | NInf | NaN

datatype pyerr = TypeError | ZeroDivisionError | OverflowError | ValueError

text \<open>\<open>ilog2 x\<close> is the binary exponent of a positive rational: \<open>2^e \<le> x < 2^(e+1)\<close>.\<close>

definition ilog2 :: "rat \<Rightarrow> int" where
  "ilog2 x = (let (p, q) = quotient_of x; k = bitlen p - bitlen q
              in if 2 powi k \<le> x then k else k - 1)"

text \<open>Rounding to the nearest integer, ties to the even one.\<close>

definition round_even :: "rat \<Rightarrow> int" where
  "round_even q = (let f = \<lfloor>q\<rfloor>; d = q - of_int f
                   in if d < 1/2 then f else if 1/2 < d then f + 1
                      else if even f then f else f + 1)"

text \<open>
  \<open>fl x\<close> is the binary64 number nearest to \<open>x\<close> (53 significant bits, spacing at least
  \<open>2^-1074\<close>, ties to even), before the overflow check.
\<close>

definition fl :: "rat \<Rightarrow> rat" where
  "fl x = (if x = 0 then 0
           else let u = 2 powi (max (ilog2 \<bar>x\<bar> - 52) (- 1074))
                in of_int (round_even (x / u)) * u)"

definition rnd :: "rat \<Rightarrow> pyfloat" where
  "rnd x = (let y = fl x
            in if 2 ^ 1024 \<le> y then PInf else if y \<le> - (2 ^ 1024) then NInf else Fin y)"

fun fneg :: "pyfloat \<Rightarrow> pyfloat" where
  "fneg (Fin a) = Fin (- a)"
| "fneg PInf = NInf"
| "fneg NInf = PInf"
| "fneg NaN = NaN"

fun fadd :: "pyfloat \<Rightarrow> pyfloat \<Rightarrow> pyfloat" where
  "fadd NaN _ = NaN"
| "fadd _ NaN = NaN"
| "fadd (Fin a) (Fin b) = rnd (a + b)"
| "fadd PInf NInf = NaN"
| "fadd NInf PInf = NaN"
| "fadd PInf _ = PInf"
| "fadd NInf _ = NInf"
| "fadd (Fin a) b = b"

definition fsub :: "pyfloat \<Rightarrow> pyfloat \<Rightarrow> pyfloat" where
  "fsub a b = fadd a (fneg b)"

text \<open>The sign of a float as \<open>-1\<close>, \<open>0\<close> or \<open>1\<close> (\<open>NaN\<close> is handled before it is asked).\<close>

fun fsgn :: "pyfloat \<Rightarrow> int" where
  "fsgn (Fin a) = (if a < 0 then - 1 else if a = 0 then 0 else 1)"
| "fsgn PInf = 1"
| "fsgn NInf = - 1"
| "fsgn NaN = 0"

definition inf_of_sign :: "int \<Rightarrow> pyfloat" where
  "inf_of_sign s = (if s = 0 then NaN else if s < 0 then NInf else PInf)"

fun fmul :: "pyfloat \<Rightarrow> pyfloat \<Rightarrow> pyfloat" where
  "fmul NaN _ = NaN"
| "fmul _ NaN = NaN"
| "fmul (Fin a) (Fin b) = rnd (a * b)"
| "fmul a b = inf_of_sign (fsgn a * fsgn b)"

text \<open>
  Python's float division raises \<open>ZeroDivisionError\<close> whenever the divisor is zero, before
  looking at the dividend; otherwise it is the IEEE division.
\<close>

fun fdiv :: "pyfloat \<Rightarrow> pyfloat \<Rightarrow> pyerr + pyfloat" where
  "fdiv a (Fin b) =
     (if b = 0 then Inl ZeroDivisionError
      else case a of Fin x \<Rightarrow> Inr (rnd (x / b))
                   | NaN \<Rightarrow> Inr NaN
                   | _ \<Rightarrow> Inr (inf_of_sign (fsgn a * fsgn (Fin b))))"
| "fdiv NaN _ = Inr NaN"
| "fdiv _ NaN = Inr NaN"
| "fdiv (Fin a) _ = Inr (Fin 0)"
| "fdiv _ _ = Inr NaN"

text \<open>Comparisons: every comparison with \<open>NaN\<close> is false.\<close>

fun flt :: "pyfloat \<Rightarrow> pyfloat \<Rightarrow> bool" where
  "flt NaN _ = False"
| "flt _ NaN = False"
| "flt (Fin a) (Fin b) = (a < b)"
| "flt _ NInf = False"
| "flt NInf _ = True"
| "flt PInf _ = False"
| "flt (Fin a) PInf = True"

definition feq :: "pyfloat \<Rightarrow> pyfloat \<Rightarrow> bool" where
  "feq a b = (a \<noteq> NaN \<and> a = b)"

definition fle :: "pyfloat \<Rightarrow> pyfloat \<Rightarrow> bool" where
  "fle a b = (flt a b \<or> feq a b)"

definition fge :: "pyfloat \<Rightarrow> pyfloat \<Rightarrow> bool" where
  "fge a b = fle b a"

text \<open>
  An \<open>int\<close> operand of a float operation is converted first; the conversion rounds and
  raises \<open>OverflowError\<close> when the integer is beyond the float range.
\<close>

definition int_to_float :: "int \<Rightarrow> pyerr + pyfloat" where
  "int_to_float n = (case rnd (of_int n) of Fin y \<Rightarrow> Inr (Fin y) | _ \<Rightarrow> Inl OverflowError)"

text \<open>\<open>int(x)\<close> on a float truncates towards zero and refuses the special values.\<close>

fun py_int :: "pyfloat \<Rightarrow> pyerr + int" where
  "py_int (Fin a) = Inr (if 0 \<le> a then \<lfloor>a\<rfloor> else \<lceil>a\<rceil>)"
| "py_int NaN = Inl ValueError"
| "py_int _ = Inl OverflowError"

text \<open>
  The C library's \<open>pow\<close> is not part of the program, and libraries differ in the last bit
  of its result. It is taken to be some faithfully rounded power: one fixed function
  about which only this is known, that wherever the exact power lies between two finite
  floats, the returned value is a float between them too (so an exactly representable
  power is returned exactly, and any other power is rounded to one of its two
  neighbours).
\<close>

definition faithful :: "(rat \<Rightarrow> int \<Rightarrow> pyfloat) \<Rightarrow> bool" where
  "faithful pw =
     (\<forall>a k lo hi. a \<noteq> 0 \<and> fl lo = lo \<and> fl hi = hi \<and> - (2 ^ 1024) < lo \<and> hi < 2 ^ 1024
                  \<and> lo \<le> a powi k \<and> a powi k \<le> hi
        \<longrightarrow> (\<exists>p. pw a k = Fin p \<and> fl p = p \<and> lo \<le> p \<and> p \<le> hi))"

definition libm_pow :: "rat \<Rightarrow> int \<Rightarrow> pyfloat" where
  "libm_pow = (SOME pw. faithful pw)"

text \<open>
  \<open>x ** n\<close> for a float \<open>x\<close> and an int \<open>n\<close>. The exponent is converted to a float and the
  special cases are decided by the interpreter: a zero exponent, the special values, a
  zero base, and a base of \<open>1\<close> or \<open>-1\<close>. The rest is the C library's \<open>pow\<close> on the absolute
  value of the base, negated for a negative base and an odd exponent; an infinite result
  is reported as \<open>OverflowError\<close>.
\<close>

definition float_pow :: "pyfloat \<Rightarrow> int \<Rightarrow> pyerr + pyfloat" where
  "float_pow x n =
     (case int_to_float n of
        Inl e \<Rightarrow> Inl e
      | Inr w \<Rightarrow>
          (let k = (case w of Fin y \<Rightarrow> \<lfloor>y\<rfloor> | _ \<Rightarrow> 0)
           in if k = 0 then Inr (Fin 1)
              else case x of
                     NaN \<Rightarrow> Inr NaN
                   | PInf \<Rightarrow> Inr (if 0 < k then PInf else Fin 0)
                   | NInf \<Rightarrow> Inr (if 0 < k then (if odd k then NInf else PInf) else Fin 0)
                   | Fin a \<Rightarrow>
                       if a = 0 then (if k < 0 then Inl ZeroDivisionError else Inr (Fin 0))
                       else (let s = (if a < 0 \<and> odd k then - 1 else 1)
                             in if \<bar>a\<bar> = 1 then Inr (Fin s)
                                else case libm_pow \<bar>a\<bar> k of
                                       Fin y \<Rightarrow> Inr (Fin (s * y))
                                     | _ \<Rightarrow> Inl OverflowError)))"

text \<open>Sequencing of computations that may raise.\<close>

definition bind_r :: "pyerr + 'a \<Rightarrow> ('a \<Rightarrow> pyerr + 'b) \<Rightarrow> pyerr + 'b" where
  "bind_r m f = (case m of Inl e \<Rightarrow> Inl e | Inr v \<Rightarrow> f v)"

section \<open>Parsing numbers\<close>

text \<open>
  A message text is a \<open>string\<close>; each \<open>char\<close> stands for the code point of the same
  number, so the texts covered are those over the code points below 256. Among these the
  decimal digits are \<open>0\<close> to \<open>9\<close>, and \<open>str.strip\<close> removes the twelve characters of
  \<open>py_isspace\<close>.
\<close>

definition is_digit :: "char \<Rightarrow> bool" where
  "is_digit c = (48 \<le> (of_char c :: nat) \<and> (of_char c :: nat) \<le> 57)"

definition py_isspace :: "char \<Rightarrow> bool" where
  "py_isspace c = ((of_char c :: nat) \<in> {9, 10, 11, 12, 13, 28, 29, 30, 31, 32, 133, 160})"

definition strip :: "string \<Rightarrow> string" where
  "strip s = rev (dropWhile py_isspace (rev (dropWhile py_isspace s)))"

definition replace_char :: "char \<Rightarrow> char \<Rightarrow> string \<Rightarrow> string" where
  "replace_char a b s = map (\<lambda>c. if c = a then b else c) s"

definition remove_char :: "char \<Rightarrow> string \<Rightarrow> string" where
  "remove_char a s = filter (\<lambda>c. c \<noteq> a) s"

text \<open>
  The constructor \<open>float(s)\<close>. It strips its own, smaller set of blanks, checks that every
  underscore stands between two digits and drops them, and reads the rest as a decimal
  literal or as one of the words \<open>inf\<close>, \<open>infinity\<close>, \<open>nan\<close> (any case, optional sign).
  The value of a decimal literal is rounded to the nearest float; one too large becomes an
  infinity. \<open>None\<close> stands for \<open>ValueError\<close>.
\<close>

definition float_isspace :: "char \<Rightarrow> bool" where
  "float_isspace c = ((of_char c :: nat) \<in> {9, 10, 11, 12, 13, 32, 133, 160})"

definition float_strip :: "string \<Rightarrow> string" where
  "float_strip s = rev (dropWhile float_isspace (rev (dropWhile float_isspace s)))"

fun underscores_ok :: "char \<Rightarrow> string \<Rightarrow> bool" where
  "underscores_ok prev [] = (prev \<noteq> CHR ''_'')"
| "underscores_ok prev (c # cs) =
     ((if c = CHR ''_'' then is_digit prev else (prev = CHR ''_'' \<longrightarrow> is_digit c))
      \<and> underscores_ok c cs)"

definition digits_val :: "string \<Rightarrow> nat" where
  "digits_val ds = foldl (\<lambda>a c. 10 * a + ((of_char c :: nat) - 48)) 0 ds"

fun split_sign :: "string \<Rightarrow> bool \<times> string" where
  "split_sign [] = (False, [])"
| "split_sign (c # cs) =
     (if c = CHR ''-'' then (True, cs) else if c = CHR ''+'' then (False, cs)
      else (False, c # cs))"

definition parse_exponent :: "string \<Rightarrow> int option" where
  "parse_exponent r =
     (case r of
        [] \<Rightarrow> Some 0
      | c # cs \<Rightarrow>
          if c = CHR ''e'' \<or> c = CHR ''E'' then
            (let (neg, ds) = split_sign cs
             in if ds \<noteq> [] \<and> list_all is_digit ds
                then Some (if neg then - int (digits_val ds) else int (digits_val ds))
                else None)
          else None)"

definition parse_decimal :: "string \<Rightarrow> pyfloat option" where
  "parse_decimal s =
     (let (neg, body) = split_sign s;
          ip = takeWhile is_digit body;
          r1 = dropWhile is_digit body;
          has_point = (r1 \<noteq> [] \<and> hd r1 = CHR ''.'');
          fp = (if has_point then takeWhile is_digit (tl r1) else []);
          r2 = (if has_point then dropWhile is_digit (tl r1) else r1)
      in if ip = [] \<and> fp = [] then None
         else case parse_exponent r2 of
                None \<Rightarrow> None
              | Some e \<Rightarrow>
                  (let v = rat_of_nat (digits_val (ip @ fp)) * 10 powi (e - int (length fp))
                   in Some (rnd (if neg then - v else v))))"

definition lower :: "char \<Rightarrow> char" where
  "lower c = (if 65 \<le> (of_char c :: nat) \<and> (of_char c :: nat) \<le> 90
              then char_of ((of_char c :: nat) + 32) else c)"

definition parse_inf_or_nan :: "string \<Rightarrow> pyfloat option" where
  "parse_inf_or_nan s =
     (let (neg, body) = split_sign s; w = map lower body
      in if w = ''inf'' \<or> w = ''infinity'' then Some (if neg then NInf else PInf)
         else if w = ''nan'' then Some NaN
         else None)"

definition py_float :: "string \<Rightarrow> pyfloat option" where
  "py_float s =
     (let t = float_strip s
      in if \<not> underscores_ok (CHR 0x00) t then None
         else let d = remove_char (CHR ''_'') t
              in case parse_decimal d of
                   Some v \<Rightarrow> Some v
                 | None \<Rightarrow> parse_inf_or_nan d)"

text \<open>\<open>parse_number\<close>: the \<open>ValueError\<close> of \<open>float\<close> is caught and turned into \<open>None\<close>.\<close>

definition parse_number :: "string \<Rightarrow> pyfloat option" where
  "parse_number text =
     py_float (remove_char (CHR '' '') (replace_char (CHR '','') (CHR ''.'') (strip text)))"

section \<open>The amortization calculator\<close>

record payment =
  principal :: pyfloat
  monthly_payment :: pyfloat
  total_payment :: pyfloat
  total_interest :: pyfloat
  months :: int

text \<open>
  \<open>calculate_monthly_payment\<close> with the argument types of its signature: three floats and
  an \<open>int\<close> number of years. The operations are evaluated in the order of the source, so
  the first one that raises decides the error.
\<close>

definition calculate_monthly_payment ::
  "pyfloat \<Rightarrow> pyfloat \<Rightarrow> int \<Rightarrow> pyfloat \<Rightarrow> pyerr + payment" where
  "calculate_monthly_payment loan_amount down_payment years annual_rate_percent =
     (let principal = fsub loan_amount down_payment;
          months = years * 12
      in bind_r
           (if feq annual_rate_percent (Fin 0) then
              bind_r (int_to_float months) (\<lambda>m. fdiv principal m)
            else
              bind_r (fdiv annual_rate_percent (Fin 12)) (\<lambda>q.
              bind_r (fdiv q (Fin 100)) (\<lambda>monthly_rate.
              bind_r (float_pow (fadd (Fin 1) monthly_rate) months) (\<lambda>p1.
              bind_r (float_pow (fadd (Fin 1) monthly_rate) months) (\<lambda>p2.
                fdiv (fmul principal (fmul monthly_rate p1)) (fsub p2 (Fin 1)))))))
           (\<lambda>monthly_payment.
              bind_r (int_to_float months) (\<lambda>m.
                let total_payment = fmul monthly_payment m;
                    total_interest = fsub total_payment principal
                in Inr \<lparr>principal = principal, monthly_payment = monthly_payment,
                        total_payment = total_payment, total_interest = total_interest,
                        months = months\<rparr>)))"

section \<open>Configuration\<close>

definition MIN_LOAN_TERM_YEARS :: int where "MIN_LOAN_TERM_YEARS = 1"
definition MAX_LOAN_TERM_YEARS :: int where "MAX_LOAN_TERM_YEARS = 30"

text \<open>The literals \<open>0.1\<close> and \<open>30.0\<close> denote the floats nearest to them.\<close>

definition MIN_INTEREST_RATE :: pyfloat where "MIN_INTEREST_RATE = rnd (1 / 10)"
definition MAX_INTEREST_RATE :: pyfloat where "MAX_INTEREST_RATE = rnd 30"

section \<open>The session store\<close>

text \<open>
  A session is the dictionary built by \<open>get_session\<close>: always the same four keys, each
  holding \<open>None\<close> or the value a handler stored. The store \<open>sessions\<close> maps a chat to its
  session.
\<close>

type_synonym chat_id = int

record session =
  loan_amount :: "pyfloat option"
  down_payment :: "pyfloat option"
  loan_term :: "int option"
  interest_rate :: "pyfloat option"

type_synonym sessions = "chat_id \<rightharpoonup> session"

definition new_session :: session where
  "new_session = \<lparr>loan_amount = None, down_payment = None, loan_term = None,
                   interest_rate = None\<rparr>"

definition get_session :: "chat_id \<Rightarrow> sessions \<Rightarrow> sessions \<times> session" where
  "get_session chat ss =
     (case ss chat of
        None \<Rightarrow> (ss(chat \<mapsto> new_session), new_session)
      | Some s \<Rightarrow> (ss, s))"

definition clear_session :: "chat_id \<Rightarrow> sessions \<Rightarrow> sessions" where
  "clear_session chat ss = (if chat \<in> dom ss then ss(chat := None) else ss)"

section \<open>The handlers\<close>

text \<open>
  The conversation states; \<open>END\<close> is \<open>ConversationHandler.END\<close>. A reply is the message
  template that was sent together with the values interpolated into it.
\<close>

datatype state = LOAN_AMOUNT | DOWN_PAYMENT | LOAN_TERM | INTEREST_RATE | END

datatype reply =
    Welcome
  | HelpText
  | Cancelled
  | InvalidLoanAmount
  | LoanAmountOk pyfloat
  | InvalidDownPayment
  | DownPaymentTooLarge pyfloat pyfloat
  | DownPaymentOk pyfloat
  | InvalidLoanTerm
  | LoanTermOk int
  | InvalidInterestRate
  | Results pyfloat pyfloat int pyfloat payment
  | Greeting

text \<open>
  A handler either returns, with the store as it left it, the reply it sent and the next
  state, or raises, with the store as it was when the exception left the handler.
\<close>

datatype outcome = Returned sessions reply state | Raised sessions pyerr

definition outcome_store :: "outcome \<Rightarrow> sessions" where
  "outcome_store out = (case out of Returned ss r st \<Rightarrow> ss | Raised ss e \<Rightarrow> ss)"

definition start :: "chat_id \<Rightarrow> sessions \<Rightarrow> outcome" where
  "start chat ss = Returned (fst (get_session chat (clear_session chat ss))) Welcome LOAN_AMOUNT"

definition cancel :: "chat_id \<Rightarrow> sessions \<Rightarrow> outcome" where
  "cancel chat ss = Returned (clear_session chat ss) Cancelled END"

definition help_command :: reply where
  "help_command = HelpText"

definition handle_unknown :: reply where
  "handle_unknown = Greeting"

definition handle_loan_amount :: "chat_id \<Rightarrow> string \<Rightarrow> sessions \<Rightarrow> outcome" where
  "handle_loan_amount chat text ss =
     (case parse_number text of
        None \<Rightarrow> Returned ss InvalidLoanAmount LOAN_AMOUNT
      | Some amount \<Rightarrow>
          if fle amount (Fin 0) then Returned ss InvalidLoanAmount LOAN_AMOUNT
          else let (ss1, s) = get_session chat ss
               in Returned (ss1(chat \<mapsto> s\<lparr>loan_amount := Some amount\<rparr>))
                    (LoanAmountOk amount) DOWN_PAYMENT)"

definition handle_down_payment :: "chat_id \<Rightarrow> string \<Rightarrow> sessions \<Rightarrow> outcome" where
  "handle_down_payment chat text ss =
     (let (ss1, s) = get_session chat ss
      in case parse_number text of
           None \<Rightarrow> Returned ss1 InvalidDownPayment DOWN_PAYMENT
         | Some amount \<Rightarrow>
             if flt amount (Fin 0) then Returned ss1 InvalidDownPayment DOWN_PAYMENT
             else case loan_amount s of
                    None \<Rightarrow> Raised ss1 TypeError
                  | Some la \<Rightarrow>
                      if fge amount la
                      then Returned ss1 (DownPaymentTooLarge amount la) DOWN_PAYMENT
                      else Returned (ss1(chat \<mapsto> s\<lparr>down_payment := Some amount\<rparr>))
                             (DownPaymentOk amount) LOAN_TERM)"

definition handle_loan_term :: "chat_id \<Rightarrow> string \<Rightarrow> sessions \<Rightarrow> outcome" where
  "handle_loan_term chat text ss =
     (case parse_number text of
        None \<Rightarrow> Returned ss InvalidLoanTerm LOAN_TERM
      | Some years \<Rightarrow>
          if \<not> (fle (Fin (of_int MIN_LOAN_TERM_YEARS)) years
                \<and> fle years (Fin (of_int MAX_LOAN_TERM_YEARS)))
          then Returned ss InvalidLoanTerm LOAN_TERM
          else let (ss1, s) = get_session chat ss
               in case py_int years of
                    Inl e \<Rightarrow> Raised ss1 e
                  | Inr y \<Rightarrow>
                      Returned (ss1(chat \<mapsto> s\<lparr>loan_term := Some y\<rparr>)) (LoanTermOk y)
                        INTEREST_RATE)"

text \<open>
  In \<open>handle_interest_rate\<close> the calculator receives the three stored fields as they are.
  A field that is still \<open>None\<close> makes its first arithmetic operation raise \<open>TypeError\<close>.
\<close>

definition handle_interest_rate :: "chat_id \<Rightarrow> string \<Rightarrow> sessions \<Rightarrow> outcome" where
  "handle_interest_rate chat text ss =
     (case parse_number text of
        None \<Rightarrow> Returned ss InvalidInterestRate INTEREST_RATE
      | Some rate \<Rightarrow>
          if \<not> (fle MIN_INTEREST_RATE rate \<and> fle rate MAX_INTEREST_RATE)
          then Returned ss InvalidInterestRate INTEREST_RATE
          else let (ss1, s0) = get_session chat ss;
                   s = s0\<lparr>interest_rate := Some rate\<rparr>;
                   ss2 = ss1(chat \<mapsto> s)
               in case (loan_amount s, down_payment s, loan_term s) of
                    (Some la, Some dp, Some lt) \<Rightarrow>
                      (case calculate_monthly_payment la dp lt rate of
                         Inl e \<Rightarrow> Raised ss2 e
                       | Inr result \<Rightarrow>
                           Returned (clear_session chat ss2) (Results la dp lt rate result) END)
                  | _ \<Rightarrow> Raised ss2 TypeError)"

section \<open>Routing of turns\<close>

text \<open>
  The handlers are registered in \<open>main\<close>: the conversation handler with \<open>/start\<close> as entry
  point, one text handler per state, \<open>/cancel\<close> and \<open>/start\<close> as fallbacks; then \<open>/help\<close>;
  then the greeting for any other text. A turn is given to the first registered handler
  that accepts it. The conversation handler remembers the state of each conversation; a
  handler that returns \<open>END\<close> ends the conversation, one that raises leaves its state as it
  was. A conversation is identified with its chat, as in a private chat. \<open>Text\<close> is a text
  message that is not a command.
\<close>

datatype turn = StartCmd | CancelCmd | HelpCmd | OtherCmd | Text string

datatype event = Reply reply | Silent | Fault pyerr

record system =
  convs :: "chat_id \<rightharpoonup> state"
  store :: sessions

definition finish :: "chat_id \<Rightarrow> system \<Rightarrow> outcome \<Rightarrow> system \<times> event" where
  "finish chat sys out =
     (case out of
        Returned ss r st \<Rightarrow>
          (\<lparr>convs = (if st = END then (convs sys)(chat := None) else (convs sys)(chat \<mapsto> st)),
            store = ss\<rparr>, Reply r)
      | Raised ss e \<Rightarrow> (sys\<lparr>store := ss\<rparr>, Fault e))"

definition state_handler :: "state \<Rightarrow> chat_id \<Rightarrow> string \<Rightarrow> sessions \<Rightarrow> outcome" where
  "state_handler st =
     (case st of
        LOAN_AMOUNT \<Rightarrow> handle_loan_amount
      | DOWN_PAYMENT \<Rightarrow> handle_down_payment
      | LOAN_TERM \<Rightarrow> handle_loan_term
      | _ \<Rightarrow> handle_interest_rate)"

definition process_update :: "chat_id \<Rightarrow> turn \<Rightarrow> system \<Rightarrow> system \<times> event" where
  "process_update chat t sys =
     (case convs sys chat of
        None \<Rightarrow>
          (case t of
             StartCmd \<Rightarrow> finish chat sys (start chat (store sys))
           | HelpCmd \<Rightarrow> (sys, Reply help_command)
           | Text txt \<Rightarrow> (sys, Reply handle_unknown)
           | _ \<Rightarrow> (sys, Silent))
      | Some st \<Rightarrow>
          (case t of
             Text txt \<Rightarrow> finish chat sys (state_handler st chat txt (store sys))
           | CancelCmd \<Rightarrow> finish chat sys (cancel chat (store sys))
           | StartCmd \<Rightarrow> finish chat sys (start chat (store sys))
           | HelpCmd \<Rightarrow> (sys, Reply help_command)
           | OtherCmd \<Rightarrow> (sys, Silent)))"

text \<open>A run processes the turns of any number of chats in the order they arrive.\<close>

fun run :: "(chat_id \<times> turn) list \<Rightarrow> system \<Rightarrow> system" where
  "run [] sys = sys"
| "run ((chat, t) # ts) sys = run ts (fst (process_update chat t sys))"

definition init :: system where
  "init = \<lparr>convs = Map.empty, store = Map.empty\<rparr>"

section \<open>Accepted values and the step-order invariant\<close>

text \<open>
  A value is accepted at a step when the handler's checks let it through: these are the
  negations of the conditions under which the handlers re-prompt.
\<close>

definition loan_ok :: "pyfloat \<Rightarrow> bool" where
  "loan_ok a = (\<not> fle a (Fin 0))"

definition down_ok :: "pyfloat \<Rightarrow> pyfloat \<Rightarrow> bool" where
  "down_ok la d = (\<not> flt d (Fin 0) \<and> \<not> fge d la)"

definition term_ok :: "int \<Rightarrow> bool" where
  "term_ok y = (MIN_LOAN_TERM_YEARS \<le> y \<and> y \<le> MAX_LOAN_TERM_YEARS)"

definition rate_ok :: "pyfloat \<Rightarrow> bool" where
  "rate_ok r = (fle MIN_INTEREST_RATE r \<and> fle r MAX_INTEREST_RATE)"

text \<open>
  \<open>session_ok st so\<close> relates the conversation state of a chat to its stored session: no
  conversation, no session; otherwise exactly the fields of the steps already passed are
  set, to accepted values.
\<close>

definition session_ok :: "state option \<Rightarrow> session option \<Rightarrow> bool" where
  "session_ok st so =
     (case st of
        None \<Rightarrow> so = None
      | Some END \<Rightarrow> False
      | Some q \<Rightarrow>
          (case so of
             None \<Rightarrow> False
           | Some s \<Rightarrow>
               interest_rate s = None
               \<and> (case loan_amount s of
                     None \<Rightarrow> q = LOAN_AMOUNT \<and> down_payment s = None \<and> loan_term s = None
                   | Some a \<Rightarrow>
                       loan_ok a
                       \<and> (case down_payment s of
                             None \<Rightarrow> q = DOWN_PAYMENT \<and> loan_term s = None
                           | Some d \<Rightarrow>
                               down_ok a d
                               \<and> (case loan_term s of
                                     None \<Rightarrow> q = LOAN_TERM
                                   | Some y \<Rightarrow> q = INTEREST_RATE \<and> term_ok y)))))"

definition invariant :: "system \<Rightarrow> bool" where
  "invariant sys = (\<forall>chat. session_ok (convs sys chat) (store sys chat))"

text \<open>
  \<open>validation_fails st s msg\<close> follows the wording of the specification, not the tests of
  the handlers: the text \<open>msg\<close> fails the validation of step \<open>st\<close> for a session \<open>s\<close> when it
  does not parse as a number, or when the number violates the range of the step (a loan
  amount must be greater than 0, a down payment at least 0, a term and a rate within the
  configured bounds), or when, at the down-payment step, it is not strictly below the
  stored loan amount.
\<close>

definition validation_fails :: "state \<Rightarrow> session \<Rightarrow> string \<Rightarrow> bool" where
  "validation_fails st s msg =
     (case parse_number msg of
        None \<Rightarrow> st \<noteq> END
      | Some v \<Rightarrow>
          (case st of
             LOAN_AMOUNT \<Rightarrow> \<not> flt (Fin 0) v
           | DOWN_PAYMENT \<Rightarrow>
               \<not> fle (Fin 0) v
               \<or> (case loan_amount s of None \<Rightarrow> False | Some la \<Rightarrow> \<not> flt v la)
           | LOAN_TERM \<Rightarrow>
               \<not> (fle (Fin (of_int MIN_LOAN_TERM_YEARS)) v
                  \<and> fle v (Fin (of_int MAX_LOAN_TERM_YEARS)))
           | INTEREST_RATE \<Rightarrow> \<not> (fle MIN_INTEREST_RATE v \<and> fle v MAX_INTEREST_RATE)
           | END \<Rightarrow> False))"

definition is_error_reply :: "reply \<Rightarrow> bool" where
  "is_error_reply r =
     (case r of
        InvalidLoanAmount \<Rightarrow> True
      | InvalidDownPayment \<Rightarrow> True
      | DownPaymentTooLarge d la \<Rightarrow> True
      | InvalidLoanTerm \<Rightarrow> True
      | InvalidInterestRate \<Rightarrow> True
      | _ \<Rightarrow> False)"

text \<open>What a handler's outcome shows of one chat: its session afterwards, and what was
  returned or raised.\<close>

definition outcome_view :: "chat_id \<Rightarrow> outcome \<Rightarrow> session option \<times> (pyerr + reply \<times> state)" where
  "outcome_view chat out =
     (case out of
        Returned ss r st \<Rightarrow> (ss chat, Inr (r, st))
      | Raised ss e \<Rightarrow> (ss chat, Inl e))"

text \<open>
  What one chat observes of a run: the events of its own turns, in order. A turn of
  another chat contributes nothing to it.
\<close>

fun replies :: "chat_id \<Rightarrow> (chat_id \<times> turn) list \<Rightarrow> system \<Rightarrow> event list" where
  "replies A [] sys = []"
| "replies A ((chat, t) # ts) sys =
     (if chat = A then [snd (process_update chat t sys)] else [])
     @ replies A ts (fst (process_update chat t sys))"

text \<open>The turns of one chat among the turns of a run.\<close>

definition turns_of :: "chat_id \<Rightarrow> (chat_id \<times> turn) list \<Rightarrow> (chat_id \<times> turn) list" where
  "turns_of A ts = filter (\<lambda>ct. fst ct = A) ts"

section \<open>Facts about rounding\<close>

lemma two_powi_pos: "0 < (2::rat) powi k"
  by (simp add: power_int_def)

lemma two_powi_mono: "a \<le> b \<Longrightarrow> (2::rat) powi a \<le> 2 powi b"
  by (rule power_int_increasing) simp_all

lemma two_powi_strict_mono: "a < b \<Longrightarrow> (2::rat) powi a < 2 powi b"
  by (rule power_int_strict_increasing) simp_all

lemma bitlen_rat_bounds:
  assumes "0 < p"
  shows "(2::rat) powi (bitlen p - 1) \<le> of_int p" and "of_int p < (2::rat) powi (bitlen p)"
proof -
  have b: "1 \<le> bitlen p" using assms by (simp add: bitlen_alt_def)
  from bitlen_bounds[OF assms] have l: "2 ^ nat (bitlen p - 1) \<le> p" and u: "p < 2 ^ nat (bitlen p)"
    by simp_all
  have "(2::rat) powi (bitlen p - 1) = of_int (2 ^ nat (bitlen p - 1))"
    using b by (simp add: power_int_def)
  also have "\<dots> \<le> of_int p" using l by (simp only: of_int_le_iff)
  finally show "(2::rat) powi (bitlen p - 1) \<le> of_int p" .
  have "(of_int p :: rat) < of_int (2 ^ nat (bitlen p))" using u by (simp only: of_int_less_iff)
  also have "\<dots> = 2 powi (bitlen p)" using b by (simp add: power_int_def)
  finally show "of_int p < (2::rat) powi (bitlen p)" .
qed

lemma ilog2_bounds:
  assumes "0 < x"
  shows "2 powi (ilog2 x) \<le> x \<and> x < 2 powi (ilog2 x + 1)"
proof -
  obtain p q where pq: "quotient_of x = (p, q)" by (cases "quotient_of x")
  have q: "0 < q" using pq by (rule quotient_of_denom_pos)
  have x: "x = of_int p / of_int q" using pq by (rule quotient_of_div)
  have p: "0 < p" using assms q x by (simp add: zero_less_divide_iff)
  define k where "k = bitlen p - bitlen q"
  have qr: "(0::rat) < of_int q" using q by simp
  have up: "x < 2 powi (k + 1)"
  proof -
    have "of_int p < (2::rat) powi (bitlen p)" using bitlen_rat_bounds(2)[OF p] .
    also have "\<dots> = 2 powi (k + 1) * 2 powi (bitlen q - 1)"
      by (simp add: k_def flip: power_int_add)
    also have "\<dots> \<le> 2 powi (k + 1) * of_int q"
      using bitlen_rat_bounds(1)[OF q] two_powi_pos[of "k + 1"] by simp
    finally show ?thesis using qr by (simp add: x pos_divide_less_eq)
  qed
  have lo: "2 powi (k - 1) \<le> x"
  proof -
    have "2 powi (k - 1) * of_int q \<le> 2 powi (k - 1) * (2::rat) powi (bitlen q)"
      using bitlen_rat_bounds(2)[OF q] two_powi_pos[of "k - 1"] by simp
    also have "\<dots> = 2 powi (bitlen p - 1)"
      by (simp add: k_def flip: power_int_add)
    also have "\<dots> \<le> of_int p" using bitlen_rat_bounds(1)[OF p] .
    finally show ?thesis using qr by (simp add: x pos_le_divide_eq)
  qed
  show ?thesis
    using up lo by (simp add: ilog2_def pq k_def[symmetric] Let_def not_le)
qed

lemma ilog2_unique:
  assumes "0 < x" "2 powi e \<le> x" "x < 2 powi (e + 1)"
  shows "ilog2 x = e"
proof (rule ccontr)
  assume ne: "ilog2 x \<noteq> e"
  from ilog2_bounds[OF assms(1)] have b: "2 powi (ilog2 x) \<le> x" "x < 2 powi (ilog2 x + 1)"
    by simp_all
  show False
  proof (cases "ilog2 x < e")
    case True
    then have "(2::rat) powi (ilog2 x + 1) \<le> 2 powi e" by (intro two_powi_mono) simp
    with b(2) assms(2) show False by simp
  next
    case False
    with ne have "e + 1 \<le> ilog2 x" by simp
    then have "(2::rat) powi (e + 1) \<le> 2 powi (ilog2 x)" by (rule two_powi_mono)
    with b(1) assms(3) show False by simp
  qed
qed


lemma round_even_of_int: "round_even (of_int n) = n"
  by (simp add: round_even_def)

lemma round_even_lower: "\<lfloor>q\<rfloor> \<le> round_even q"
  by (simp add: round_even_def Let_def)

lemma round_even_upper: "round_even q \<le> \<lfloor>q\<rfloor> + 1"
  by (simp add: round_even_def Let_def)

lemma round_even_mono:
  assumes "a \<le> b"
  shows "round_even a \<le> round_even b"
proof -
  have "\<lfloor>a\<rfloor> \<le> \<lfloor>b\<rfloor>" using assms by (rule floor_mono)
  then consider "\<lfloor>a\<rfloor> < \<lfloor>b\<rfloor>" | "\<lfloor>a\<rfloor> = \<lfloor>b\<rfloor>" by linarith
  then show ?thesis
  proof cases
    case 1
    have "round_even a \<le> \<lfloor>a\<rfloor> + 1" by (rule round_even_upper)
    also have "\<dots> \<le> \<lfloor>b\<rfloor>" using 1 by simp
    also have "\<dots> \<le> round_even b" by (rule round_even_lower)
    finally show ?thesis .
  next
    case 2
    then show ?thesis using assms by (auto simp: round_even_def Let_def)
  qed
qed

lemma round_even_neg: "round_even (- q) = - round_even q"
proof (cases "q = of_int \<lfloor>q\<rfloor>")
  case True
  then obtain n where "q = of_int n" ..
  then show ?thesis using round_even_of_int[of n] round_even_of_int[of "- n"] by simp
next
  case False
  then have fl: "\<lfloor>- q\<rfloor> = - \<lfloor>q\<rfloor> - 1"
    by (metis ceiling_altdef ceiling_def add_diff_cancel_right' minus_diff_eq
        diff_minus_eq_add minus_add_distrib uminus_add_conv_diff)
  have d: "0 < q - of_int \<lfloor>q\<rfloor>" "q - of_int \<lfloor>q\<rfloor> < 1"
    using False of_int_floor_le[of q] floor_correct[of q] by linarith+
  show ?thesis unfolding round_even_def Let_def fl using d by auto
qed


lemma fl_eval:
  assumes "x \<noteq> 0" "2 powi e \<le> \<bar>x\<bar>" "\<bar>x\<bar> < 2 powi (e + 1)"
  shows "fl x = of_int (round_even (x / 2 powi (max (e - 52) (- 1074))))
                * 2 powi (max (e - 52) (- 1074))"
proof -
  have "ilog2 \<bar>x\<bar> = e" using assms by (intro ilog2_unique) simp_all
  then show ?thesis using assms(1) by (simp add: fl_def Let_def)
qed

lemma fl_zero: "fl 0 = 0"
  by (simp add: fl_def)

lemma fl_neg: "fl (- x) = - fl x"
  by (simp add: fl_def Let_def round_even_neg)

lemma fl_nonneg:
  assumes "0 \<le> x"
  shows "0 \<le> fl x"
proof (cases "x = 0")
  case True
  then show ?thesis by (simp add: fl_zero)
next
  case False
  define u where "u = (2::rat) powi (max (ilog2 \<bar>x\<bar> - 52) (- 1074))"
  have u: "0 < u" unfolding u_def by (rule two_powi_pos)
  have "0 \<le> x / u" using assms u by simp
  then have "round_even (of_int 0) \<le> round_even (x / u)" by (intro round_even_mono) simp
  then have "0 \<le> round_even (x / u)" using round_even_of_int[of 0] by simp
  then show ?thesis using False u by (simp add: fl_def Let_def u_def[symmetric])
qed

lemma fl_binade:
  assumes "0 < x"
  shows "2 powi (max (ilog2 x) (- 1074 + 52)) \<le> fl x \<or> ilog2 x - 52 < - 1074"
    and "fl x \<le> 2 powi (ilog2 x + 1)"
proof -
  define e where "e = ilog2 x"
  define k where "k = max (e - 52) (- 1074)"
  define u where "u = (2::rat) powi k"
  have u: "0 < u" unfolding u_def by (rule two_powi_pos)
  have b: "2 powi e \<le> x" "x < 2 powi (e + 1)" using ilog2_bounds[OF assms] by (simp_all add: e_def)
  have flx: "fl x = of_int (round_even (x / u)) * u"
    using assms by (simp add: fl_def Let_def u_def k_def e_def)
  have "fl x \<le> 2 powi (e + 1)"
  proof (cases "k \<le> e + 1")
    case ke: True
    have "x / u \<le> 2 powi (e + 1) / u" using b(2) u by (simp add: divide_right_mono)
    also have "\<dots> = 2 powi (e + 1 - k)" by (simp add: u_def power_int_diff)
    also have "\<dots> = of_int (2 ^ nat (e + 1 - k))" using ke by (simp add: power_int_def)
    finally have "round_even (x / u) \<le> round_even (of_int (2 ^ nat (e + 1 - k)))"
      by (rule round_even_mono)
    then have "(of_int (round_even (x / u)) :: rat) \<le> of_int (2 ^ nat (e + 1 - k))"
      by (simp only: round_even_of_int of_int_le_iff)
    also have "\<dots> = 2 powi (e + 1 - k)" using ke by (simp add: power_int_def)
    finally have "fl x \<le> 2 powi (e + 1 - k) * u" using u by (simp add: flx)
    also have "\<dots> = 2 powi (e + 1)" by (simp add: u_def flip: power_int_add)
    finally show ?thesis .
  next
    case False
    then have "e + 1 - k \<le> - 1" by simp
    then have le: "(2::rat) powi (e + 1 - k) \<le> 2 powi (- 1)" by (rule two_powi_mono)
    have "x / u < 2 powi (e + 1) / u" using b(2) u by (simp add: divide_strict_right_mono)
    also have "2 powi (e + 1) / u = 2 powi (e + 1 - k)" by (simp add: u_def power_int_diff)
    also note le
    also have "(2::rat) powi (- 1) = 1 / 2" by (simp add: power_int_minus_divide)
    finally have hi: "x / u < 1 / 2" .
    have lo: "0 \<le> x / u" using assms u by simp
    define q where "q = x / u"
    have l0: "of_int 0 \<le> q" using lo by (simp add: q_def)
    have h0: "q < of_int 0 + 1" using hi unfolding q_def[symmetric] by linarith
    have f0: "\<lfloor>q\<rfloor> = 0" using l0 h0 by (rule floor_unique)
    have "q < 1 / 2" using hi unfolding q_def[symmetric] .
    then have "round_even q = 0" unfolding round_even_def Let_def f0 by simp
    then have "round_even (x / u) = 0" by (simp only: q_def)
    then have "fl x = 0" by (simp add: flx)
    then show ?thesis using two_powi_pos[of "e + 1"] by simp
  qed
  then show "fl x \<le> 2 powi (ilog2 x + 1)" by (simp add: e_def)
  show "2 powi (max (ilog2 x) (- 1074 + 52)) \<le> fl x \<or> ilog2 x - 52 < - 1074"
  proof (cases "e - 52 < - 1074")
    case True
    then show ?thesis by (simp add: e_def)
  next
    case False
    then have k: "k = e - 52" by (simp add: k_def)
    have "(of_int (2 ^ 52) :: rat) = 2 powi e / u" by (simp add: u_def k power_int_diff)
    also have "\<dots> \<le> x / u" using b(1) u by (simp add: divide_right_mono)
    finally have "round_even (of_int (2 ^ 52)) \<le> round_even (x / u)" by (rule round_even_mono)
    then have "(of_int (2 ^ 52) :: rat) \<le> of_int (round_even (x / u))"
      by (simp only: round_even_of_int of_int_le_iff)
    then have "2 ^ 52 * u \<le> fl x" using u by (simp add: flx)
    moreover have "2 ^ 52 * u = 2 powi e"
      using power_int_add[of "2::rat" 52 k] by (simp add: u_def k)
    ultimately have "2 powi e \<le> fl x" by simp
    moreover have "max e (- 1074 + 52) = e" using False by simp
    ultimately show ?thesis by (simp add: e_def)
  qed
qed


lemma ilog2_mono:
  assumes "0 < x" "x \<le> y"
  shows "ilog2 x \<le> ilog2 y"
proof (rule ccontr)
  assume "\<not> ilog2 x \<le> ilog2 y"
  then have "ilog2 y + 1 \<le> ilog2 x" by simp
  then have "(2::rat) powi (ilog2 y + 1) \<le> 2 powi (ilog2 x)" by (rule two_powi_mono)
  moreover have "y < 2 powi (ilog2 y + 1)" using ilog2_bounds[of y] assms by simp
  moreover have "2 powi (ilog2 x) \<le> x" using ilog2_bounds[OF assms(1)] by simp
  ultimately show False using assms(2) by linarith
qed

lemma fl_mono_pos:
  assumes "0 < x" "x \<le> y"
  shows "fl x \<le> fl y"
proof -
  have y: "0 < y" using assms by simp
  define kx where "kx = max (ilog2 x - 52) (- 1074)"
  define ky where "ky = max (ilog2 y - 52) (- 1074)"
  have e: "ilog2 x \<le> ilog2 y" using assms by (rule ilog2_mono)
  then have "kx \<le> ky" by (simp add: kx_def ky_def)
  then consider "kx = ky" | "kx < ky" by linarith
  then show ?thesis
  proof cases
    case 1
    define u where "u = (2::rat) powi kx"
    have u: "0 < u" unfolding u_def by (rule two_powi_pos)
    have fx: "fl x = of_int (round_even (x / u)) * u"
      using assms(1) by (simp add: fl_def Let_def u_def kx_def)
    have fy: "fl y = of_int (round_even (y / u)) * u"
      using y 1 by (simp add: fl_def Let_def u_def ky_def)
    have "x / u \<le> y / u" using assms(2) u by (simp add: divide_right_mono)
    then have "round_even (x / u) \<le> round_even (y / u)" by (rule round_even_mono)
    then have "(of_int (round_even (x / u)) :: rat) \<le> of_int (round_even (y / u))"
      by (simp only: of_int_le_iff)
    then show ?thesis using u by (simp add: fx fy)
  next
    case 2
    then have n: "\<not> ilog2 y - 52 < - 1074" and lt: "ilog2 x + 1 \<le> ilog2 y"
      unfolding kx_def ky_def by linarith+
    have "fl x \<le> 2 powi (ilog2 x + 1)" using fl_binade(2)[OF assms(1)] .
    also have "\<dots> \<le> 2 powi (ilog2 y)" using lt by (rule two_powi_mono)
    also have "\<dots> = 2 powi (max (ilog2 y) (- 1074 + 52))" using n by simp
    also have "\<dots> \<le> fl y" using fl_binade(1)[OF y] n by blast
    finally show ?thesis .
  qed
qed

lemma fl_mono:
  assumes "x \<le> y"
  shows "fl x \<le> fl y"
proof -
  consider "0 < x" | "x \<le> 0" "0 \<le> y" | "y < 0" by linarith
  then show ?thesis
  proof cases
    case 1
    then show ?thesis using assms by (rule fl_mono_pos)
  next
    case 2
    have "0 \<le> fl (- x)" using 2(1) by (intro fl_nonneg) simp
    then have "fl x \<le> 0" by (simp add: fl_neg)
    also have "0 \<le> fl y" using 2(2) by (rule fl_nonneg)
    finally show ?thesis .
  next
    case 3
    then have "fl (- y) \<le> fl (- x)" using assms by (intro fl_mono_pos) simp_all
    then show ?thesis by (simp add: fl_neg)
  qed
qed


lemma fl_repr:
  assumes "- 1074 \<le> k" "\<bar>n\<bar> < 2 ^ 53"
  shows "fl (of_int n * 2 powi k) = of_int n * 2 powi k"
proof (cases "n = 0")
  case True
  then show ?thesis by (simp add: fl_zero)
next
  case False
  define x where "x = (of_int n :: rat) * 2 powi k"
  have pk: "0 < (2::rat) powi k" by (rule two_powi_pos)
  have x0: "x \<noteq> 0" using False pk by (simp add: x_def)
  have ax: "\<bar>x\<bar> = of_int \<bar>n\<bar> * 2 powi k" using pk by (simp add: x_def abs_mult)
  have "(of_int \<bar>n\<bar> :: rat) < of_int (2 ^ 53)" using assms(2) by (simp only: of_int_less_iff)
  then have "\<bar>x\<bar> < of_int (2 ^ 53) * 2 powi k" unfolding ax using pk by (simp only: mult_strict_right_mono)
  also have "\<dots> = 2 powi (53 + k)" using power_int_add[of "2::rat" 53 k] by simp
  finally have up: "\<bar>x\<bar> < 2 powi (53 + k)" .
  define e where "e = ilog2 \<bar>x\<bar>"
  have "2 powi e \<le> \<bar>x\<bar>" using ilog2_bounds[of "\<bar>x\<bar>"] x0 by (simp add: e_def)
  with up have "(2::rat) powi e < 2 powi (53 + k)" by linarith
  then have e: "e < 53 + k" using two_powi_mono[of "53 + k" e] by (cases "e < 53 + k") auto
  define k' where "k' = max (e - 52) (- 1074)"
  have k': "k' \<le> k" using e assms(1) by (simp add: k'_def)
  have "x / 2 powi k' = of_int n * 2 powi (k - k')" by (simp add: x_def power_int_diff)
  also have "\<dots> = of_int (n * 2 ^ nat (k - k'))" using k' by (simp add: power_int_def)
  finally have "round_even (x / 2 powi k') = n * 2 ^ nat (k - k')"
    by (simp only: round_even_of_int)
  then have "fl x = of_int (n * 2 ^ nat (k - k')) * 2 powi k'"
    using x0 by (simp add: fl_def Let_def e_def k'_def)
  also have "\<dots> = of_int n * (2 powi (k - k') * 2 powi k')" using k' by (simp add: power_int_def)
  also have "2 powi (k - k') * (2::rat) powi k' = 2 powi k" by (simp flip: power_int_add)
  finally show ?thesis by (simp add: x_def)
qed

lemma fl_of_int: "\<bar>n\<bar> < 2 ^ 53 \<Longrightarrow> fl (of_int n) = of_int n"
  using fl_repr[of 0 n] by simp

lemma fl_idem_pos:
  assumes "0 < x"
  shows "fl (fl x) = fl x"
proof -
  define e where "e = ilog2 x"
  define k where "k = max (e - 52) (- 1074)"
  define m where "m = round_even (x / 2 powi k)"
  have pk: "0 < (2::rat) powi k" by (rule two_powi_pos)
  have flx: "fl x = of_int m * 2 powi k"
    using assms by (simp add: fl_def Let_def e_def k_def m_def)
  have k0: "- 1074 \<le> k" by (simp add: k_def)
  have "round_even (of_int 0) \<le> round_even (x / 2 powi k)"
    using assms pk by (intro round_even_mono) simp
  then have m0: "0 \<le> m" by (simp only: round_even_of_int m_def)
  have "of_int m * 2 powi k \<le> (2::rat) powi (e + 1)"
    using fl_binade(2)[OF assms] by (simp add: flx e_def)
  also have "\<dots> = 2 powi (e + 1 - k) * 2 powi k" by (simp flip: power_int_add)
  finally have "(of_int m :: rat) \<le> 2 powi (e + 1 - k)" using pk by simp
  also have "\<dots> \<le> 2 powi 53" by (rule two_powi_mono) (simp add: k_def)
  finally have "(of_int m :: rat) \<le> of_int (2 ^ 53)" by simp
  then have m53: "m \<le> 2 ^ 53" by (simp only: of_int_le_iff)
  show ?thesis
  proof (cases "m = 2 ^ 53")
    case True
    have "fl x = of_int (2 ^ 52) * 2 powi (k + 1)"
      using power_int_add[of "2::rat" k 1] by (simp add: flx True)
    moreover have "fl (of_int (2 ^ 52) * 2 powi (k + 1)) = of_int (2 ^ 52) * 2 powi (k + 1)"
      using k0 by (intro fl_repr) simp_all
    ultimately show ?thesis by simp
  next
    case False
    then have "\<bar>m\<bar> < 2 ^ 53" using m0 m53 by simp
    then have "fl (of_int m * 2 powi k) = of_int m * 2 powi k" using k0 by (intro fl_repr)
    then show ?thesis by (simp add: flx)
  qed
qed

lemma fl_idem: "fl (fl x) = fl x"
proof -
  consider "0 < x" | "x = 0" | "x < 0" by linarith
  then show ?thesis
  proof cases
    case 1
    then show ?thesis by (rule fl_idem_pos)
  next
    case 2
    then show ?thesis by (simp add: fl_zero)
  next
    case 3
    then have "fl (fl (- x)) = fl (- x)" by (intro fl_idem_pos) simp
    then show ?thesis by (simp add: fl_neg)
  qed
qed

lemma round_even_near:
  assumes "\<bar>q - of_int n\<bar> < 1 / 2"
  shows "round_even q = n"
proof (cases "of_int n \<le> q")
  case True
  have "\<lfloor>q\<rfloor> = n" using True assms by (intro floor_unique) linarith+
  then show ?thesis using True assms by (simp add: round_even_def Let_def)
next
  case False
  have f: "\<lfloor>q\<rfloor> = n - 1" using False assms by (intro floor_unique) simp_all
  have "1 / 2 < q - of_int (n - 1)" using False assms by simp
  then show ?thesis unfolding round_even_def Let_def f by simp
qed

lemma fl_near:
  assumes "x \<noteq> 0" "2 powi e \<le> \<bar>x\<bar>" "\<bar>x\<bar> < 2 powi (e + 1)"
    and "\<bar>x / 2 powi (max (e - 52) (- 1074)) - of_int n\<bar> < 1 / 2"
  shows "fl x = of_int n * 2 powi (max (e - 52) (- 1074))"
  using fl_eval[OF assms(1-3)] round_even_near[OF assms(4)] by simp

lemma fl_1000_div_60: "fl (1000 / 60) = 4691249611844267 / 281474976710656"
  using fl_near[of "1000 / 60" 4 4691249611844267] by (simp add: power_int_minus_divide)

lemma fl_monthly_times_60: "fl (4691249611844267 / 281474976710656 * 60) = 8796093022208001 / 8796093022208"
  using fl_near[of "4691249611844267 / 281474976710656 * 60" 9 8796093022208001] by (simp add: power_int_minus_divide)

lemma fl_tenth: "fl (1/10) = 3602879701896397 / 36028797018963968"
  using fl_near[of "1/10" "-4" 7205759403792794] by (simp add: power_int_minus_divide)

lemma rnd_Fin:
  assumes "\<bar>x\<bar> \<le> 2 ^ 1023"
  shows "rnd x = Fin (fl x)"
proof -
  have b: "fl (2 ^ 1023) = (2::rat) ^ 1023" using fl_repr[of 1023 1] by simp
  have "fl x \<le> fl (2 ^ 1023)" using assms by (intro fl_mono) simp
  then have u: "fl x \<le> 2 ^ 1023" by (simp only: b)
  have "fl (- (2 ^ 1023)) \<le> fl x" using assms by (intro fl_mono) simp
  then have l: "- (2 ^ 1023) \<le> fl x" by (simp only: fl_neg b)
  have "(2::rat) ^ 1023 < 2 ^ 1024" by simp
  then show ?thesis using u l unfolding rnd_def Let_def by auto
qed

lemma fl_between:
  assumes "lo \<le> x" "x \<le> hi" "fl lo = lo" "fl hi = hi"
  shows "lo \<le> fl x \<and> fl x \<le> hi"
  using fl_mono[OF assms(1)] fl_mono[OF assms(2)] assms(3,4) by simp

lemma int_to_float_small:
  assumes "\<bar>n\<bar> < 2 ^ 53"
  shows "int_to_float n = Inr (Fin (of_int n))"
proof -
  have "(of_int \<bar>n\<bar> :: rat) < of_int (2 ^ 53)" using assms by (simp only: of_int_less_iff)
  then have "\<bar>of_int n :: rat\<bar> \<le> 2 ^ 1023" by simp
  then have "rnd (of_int n) = Fin (fl (of_int n))" by (rule rnd_Fin)
  then show ?thesis using fl_of_int[OF assms] by (simp add: int_to_float_def)
qed

lemma fdiv_nonzero: "d \<noteq> 0 \<Longrightarrow> \<exists>v. fdiv a (Fin d) = Inr v"
  by (cases a) simp_all


lemma fle_Fin_cases:
  assumes "fle (Fin lo) x" "fle x (Fin hi)"
  obtains r where "x = Fin r" "lo \<le> r" "r \<le> hi"
  using assms by (cases x) (auto simp: fle_def feq_def)

lemma fl_pow2_neg: "fl (1 / 2 ^ n) = 1 / 2 ^ n" if "n \<le> 1074" for n :: nat
proof -
  have "fl (of_int 1 * 2 powi (- int n)) = of_int 1 * 2 powi (- int n)"
    using that by (intro fl_repr) simp_all
  then show ?thesis by (simp add: power_int_minus_divide)
qed

lemma monthly_rate_bounds:
  assumes "fle (Fin (1 / 2 ^ 30)) rate" "fle rate (Fin 30)"
  shows "\<exists>q m. fdiv rate (Fin 12) = Inr (Fin q) \<and> fdiv (Fin q) (Fin 100) = Inr (Fin m)
           \<and> 1 / 2 ^ 41 \<le> m \<and> m \<le> 1 / 2 ^ 4"
proof -
  from assms obtain r where r: "rate = Fin r" "1 / 2 ^ 30 \<le> r" "r \<le> 30"
    by (rule fle_Fin_cases)
  define q where "q = fl (r / 12)"
  have f4: "fl 4 = 4" using fl_of_int[of 4] by simp
  have "1 / 2 ^ 34 \<le> r / 12" using r(2) by simp
  moreover have "r / 12 \<le> 4" using r(3) by simp
  ultimately have qb: "1 / 2 ^ 34 \<le> q \<and> q \<le> 4"
    unfolding q_def using fl_pow2_neg[of 34] f4 by (intro fl_between) simp_all
  have "\<bar>r / 12\<bar> \<le> 2 ^ 1023" using r(2,3) by simp
  then have 1: "fdiv rate (Fin 12) = Inr (Fin q)" by (simp add: r(1) q_def rnd_Fin)
  define m where "m = fl (q / 100)"
  have "1 / 2 ^ 41 \<le> q / 100" using qb by simp
  moreover have "q / 100 \<le> 1 / 2 ^ 4" using qb by simp
  ultimately have mb: "1 / 2 ^ 41 \<le> m \<and> m \<le> 1 / 2 ^ 4"
    unfolding m_def using fl_pow2_neg[of 41] fl_pow2_neg[of 4] by (intro fl_between) simp_all
  have "\<bar>q / 100\<bar> \<le> 2 ^ 1023" using qb by simp
  then have 2: "fdiv (Fin q) (Fin 100) = Inr (Fin m)" by (simp add: m_def rnd_Fin)
  show ?thesis using 1 2 mb by blast
qed

lemma one_plus_bounds:
  assumes "1 / 2 ^ 41 \<le> m" "m \<le> 1 / 2 ^ 4"
  shows "\<exists>a. fadd (Fin 1) (Fin m) = Fin a \<and> 1 + 1 / 2 ^ 41 \<le> a \<and> a \<le> 17 / 16"
proof -
  have lo: "fl (1 + 1 / 2 ^ 41) = 1 + 1 / 2 ^ 41"
    using fl_repr[of "- 41" "2 ^ 41 + 1"] by (simp add: power_int_minus_divide)
  have hi: "fl (17 / 16) = 17 / 16"
    using fl_repr[of "- 4" 17] by (simp add: power_int_minus_divide)
  have "1 + 1 / 2 ^ 41 \<le> 1 + m" "1 + m \<le> 17 / 16" using assms by simp_all
  then have b: "1 + 1 / 2 ^ 41 \<le> fl (1 + m) \<and> fl (1 + m) \<le> 17 / 16"
    using lo hi by (intro fl_between)
  have "\<bar>1 + m\<bar> \<le> 2 ^ 1023" using assms by simp
  then have "fadd (Fin 1) (Fin m) = Fin (fl (1 + m))" by (simp add: rnd_Fin)
  then show ?thesis using b by blast
qed

lemma faithful_rounded: "faithful (\<lambda>a k. rnd (a powi k))"
  unfolding faithful_def
proof (intro allI impI)
  fix a :: rat and k :: int and lo hi :: rat
  assume h: "a \<noteq> 0 \<and> fl lo = lo \<and> fl hi = hi \<and> - (2 ^ 1024) < lo \<and> hi < 2 ^ 1024
               \<and> lo \<le> a powi k \<and> a powi k \<le> hi"
  then have b: "lo \<le> fl (a powi k) \<and> fl (a powi k) \<le> hi" by (intro fl_between) simp_all
  then have "\<not> 2 ^ 1024 \<le> fl (a powi k)" "\<not> fl (a powi k) \<le> - (2 ^ 1024)" using h by auto
  then have "rnd (a powi k) = Fin (fl (a powi k))" by (simp add: rnd_def Let_def)
  then show "\<exists>p. rnd (a powi k) = Fin p \<and> fl p = p \<and> lo \<le> p \<and> p \<le> hi"
    using b by (simp add: fl_idem)
qed

lemma faithful_libm_pow: "faithful libm_pow"
  unfolding libm_pow_def by (rule someI[of faithful]) (rule faithful_rounded)

lemma libm_pow_between:
  assumes "a \<noteq> 0" "fl lo = lo" "fl hi = hi" "- (2 ^ 1024) < lo" "hi < 2 ^ 1024"
    and "lo \<le> a powi k" "a powi k \<le> hi"
  shows "\<exists>p. libm_pow a k = Fin p \<and> fl p = p \<and> lo \<le> p \<and> p \<le> hi"
  using faithful_libm_pow assms unfolding faithful_def by blast

lemma float_pow_bounds:
  assumes "1 + 1 / 2 ^ 41 \<le> a" "a \<le> 17 / 16" "12 \<le> n" "n \<le> 360"
  shows "\<exists>p. float_pow (Fin a) n = Inr (Fin p) \<and> 1 + 1 / 2 ^ 41 \<le> p \<and> p \<le> 2 ^ 360"
proof -
  have n53: "\<bar>n\<bar> < 2 ^ 53" using assms(3,4) by simp
  have a1: "1 < a" using assms(1) by (simp add: less_le_trans[of 1 "1 + 1 / 2 ^ 41"])
  have lo: "fl (1 + 1 / 2 ^ 41) = 1 + 1 / 2 ^ 41"
    using fl_repr[of "- 41" "2 ^ 41 + 1"] by (simp add: power_int_minus_divide)
  have hi: "fl (2 ^ 360) = (2::rat) ^ 360" using fl_repr[of 360 1] by simp
  have pw: "a powi n = a ^ nat n" using assms(3) by (simp add: power_int_def)
  have "a \<le> a ^ nat n" using a1 assms(3) by (intro self_le_power) simp_all
  then have l: "1 + 1 / 2 ^ 41 \<le> a powi n" using assms(1) by (simp add: pw)
  have "a ^ nat n \<le> 2 ^ nat n" using a1 assms(2) by (intro power_mono) simp_all
  also have "\<dots> \<le> (2::rat) ^ 360" using assms(4) by (intro power_increasing) simp_all
  finally have u: "a powi n \<le> 2 ^ 360" by (simp add: pw)
  have "(2::rat) ^ 360 < 2 ^ 1024" by (intro power_strict_increasing) simp_all
  moreover have "- (2 ^ 1024) < (1 + 1 / 2 ^ 41 :: rat)"
    by (rule less_trans[of _ 0]) simp_all
  moreover have "a \<noteq> 0" using a1 by simp
  ultimately obtain p where p: "libm_pow a n = Fin p" "1 + 1 / 2 ^ 41 \<le> p" "p \<le> 2 ^ 360"
    using libm_pow_between[OF _ lo hi _ _ l u] by blast
  have "\<bar>a\<bar> = a" "a \<noteq> 1" "a \<noteq> 0" "\<not> a < 0" "n \<noteq> 0" using a1 assms(3) by simp_all
  then have "float_pow (Fin a) n = Inr (Fin p)"
    by (simp add: float_pow_def int_to_float_small[OF n53] p(1))
  then show ?thesis using p(2,3) by blast
qed

lemma denominator_nonzero:
  assumes "1 + 1 / 2 ^ 41 \<le> p" "p \<le> 2 ^ 360"
  shows "\<exists>d. fsub (Fin p) (Fin 1) = Fin d \<and> d \<noteq> 0"
proof -
  have hi: "fl (2 ^ 360) = (2::rat) ^ 360" using fl_repr[of 360 1] by simp
  have "1 / 2 ^ 41 \<le> p - 1" "p - 1 \<le> 2 ^ 360" using assms by simp_all
  then have b: "1 / 2 ^ 41 \<le> fl (p - 1) \<and> fl (p - 1) \<le> 2 ^ 360"
    using fl_pow2_neg[of 41] hi by (intro fl_between) simp_all
  have "(2::rat) ^ 360 \<le> 2 ^ 1023" by (intro power_increasing) simp_all
  then have "\<bar>p - 1\<bar> \<le> 2 ^ 1023" using assms by simp
  then have "fsub (Fin p) (Fin 1) = Fin (fl (p - 1))" by (simp add: fsub_def rnd_Fin)
  moreover have "fl (p - 1) \<noteq> 0" using b by auto
  ultimately show ?thesis by blast
qed

section \<open>Facts about the calculator\<close>

lemma months_float:
  assumes "1 \<le> years" "years \<le> 30"
  shows "int_to_float (years * 12) = Inr (Fin (of_int (years * 12)))"
  using assms by (intro int_to_float_small) simp

lemma calc_zero_rate:
  assumes "1 \<le> years" "years \<le> 30"
  shows "\<exists>mp. fdiv (fsub loan down) (Fin (of_int (years * 12))) = Inr mp
          \<and> calculate_monthly_payment loan down years (Fin 0) =
              Inr \<lparr>principal = fsub loan down, monthly_payment = mp,
                   total_payment = fmul mp (Fin (of_int (years * 12))),
                   total_interest = fsub (fmul mp (Fin (of_int (years * 12)))) (fsub loan down),
                   months = years * 12\<rparr>"
proof -
  have "(of_int (years * 12) :: rat) \<noteq> 0" using assms by simp
  then obtain mp where mp: "fdiv (fsub loan down) (Fin (of_int (years * 12))) = Inr mp"
    using fdiv_nonzero by blast
  show ?thesis
    using mp months_float[OF assms]
    by (simp add: calculate_monthly_payment_def bind_r_def feq_def Let_def)
qed

lemma calc_pos_rate:
  assumes "1 \<le> years" "years \<le> 30" "fle (Fin (1 / 2 ^ 30)) rate" "fle rate (Fin 30)"
  shows "\<exists>q mr pw mp. fdiv rate (Fin 12) = Inr q \<and> fdiv q (Fin 100) = Inr mr
          \<and> float_pow (fadd (Fin 1) mr) (years * 12) = Inr pw
          \<and> fdiv (fmul (fsub loan down) (fmul mr pw)) (fsub pw (Fin 1)) = Inr mp
          \<and> calculate_monthly_payment loan down years rate =
              Inr \<lparr>principal = fsub loan down, monthly_payment = mp,
                   total_payment = fmul mp (Fin (of_int (years * 12))),
                   total_interest = fsub (fmul mp (Fin (of_int (years * 12)))) (fsub loan down),
                   months = years * 12\<rparr>"
proof -
  from monthly_rate_bounds[OF assms(3,4)] obtain q m where
    q: "fdiv rate (Fin 12) = Inr (Fin q)" and m: "fdiv (Fin q) (Fin 100) = Inr (Fin m)"
    and mb: "1 / 2 ^ 41 \<le> m" "m \<le> 1 / 2 ^ 4" by blast
  from one_plus_bounds[OF mb] obtain a where
    a: "fadd (Fin 1) (Fin m) = Fin a" and ab: "1 + 1 / 2 ^ 41 \<le> a" "a \<le> 17 / 16" by blast
  have n: "12 \<le> years * 12" "years * 12 \<le> 360" using assms(1,2) by simp_all
  from float_pow_bounds[OF ab n] obtain p where
    p: "float_pow (Fin a) (years * 12) = Inr (Fin p)"
    and pb: "1 + 1 / 2 ^ 41 \<le> p" "p \<le> 2 ^ 360" by blast
  from denominator_nonzero[OF pb] obtain d where
    d: "fsub (Fin p) (Fin 1) = Fin d" "d \<noteq> 0" by blast
  obtain mp where mp: "fdiv (fmul (fsub loan down) (fmul (Fin m) (Fin p))) (Fin d) = Inr mp"
    using fdiv_nonzero[OF d(2)] by blast
  have nz: "\<not> feq rate (Fin 0)"
    using assms(3) by (cases rate) (auto simp: feq_def fle_def)
  have "calculate_monthly_payment loan down years rate =
          Inr \<lparr>principal = fsub loan down, monthly_payment = mp,
               total_payment = fmul mp (Fin (of_int (years * 12))),
               total_interest = fsub (fmul mp (Fin (of_int (years * 12)))) (fsub loan down),
               months = years * 12\<rparr>"
    unfolding calculate_monthly_payment_def Let_def
    by (simp add: nz q m a p d mp months_float[OF assms(1,2)] bind_r_def
          del: fdiv.simps fadd.simps fmul.simps)
  then show ?thesis using q m a p d mp by auto
qed


lemma rnd_zero: "rnd 0 = Fin 0"
  by (simp add: rnd_def fl_zero)

lemma rnd_one: "rnd 1 = Fin 1"
  using rnd_Fin[of 1] fl_of_int[of 1] by simp

lemma rnd_exact:
  assumes "fl x = x" "\<bar>x\<bar> < 2 ^ 1024"
  shows "rnd x = Fin x"
  using assms by (auto simp: rnd_def Let_def)

lemma rnd_eq_Fin:
  assumes "rnd x = Fin y"
  shows "fl y = y \<and> \<bar>y\<bar> < 2 ^ 1024"
proof -
  from assms have "y = fl x" "\<not> 2 ^ 1024 \<le> fl x" "\<not> fl x \<le> - (2 ^ 1024)"
    by (auto simp: rnd_def Let_def split: if_splits)
  then show ?thesis by (auto simp: fl_idem)
qed

lemma fsub_eq_Fin:
  assumes "fsub a b = Fin y"
  shows "fl y = y \<and> \<bar>y\<bar> < 2 ^ 1024"
proof -
  from assms obtain x where "rnd x = Fin y"
    by (cases a; cases b) (auto simp: fsub_def)
  then show ?thesis by (rule rnd_eq_Fin)
qed

lemma fdiv_zero: "fdiv a (Fin 0) = Inl ZeroDivisionError"
  by simp

lemma float_pow_one:
  assumes "n \<noteq> 0" "\<bar>n\<bar> < 2 ^ 53"
  shows "float_pow (Fin 1) n = Inr (Fin 1)"
proof -
  have "\<lfloor>(of_int n :: rat)\<rfloor> = n" by (rule floor_of_int)
  then show ?thesis
    using assms(1) unfolding float_pow_def int_to_float_small[OF assms(2)]
    by simp
qed

lemma tiny_rate_raises:
  assumes "1 \<le> years" "years \<le> 30" "0 < r" "r \<le> 1 / 2 ^ 54"
  shows "calculate_monthly_payment loan down years (Fin r) = Inl ZeroDivisionError"
proof -
  define q where "q = fl (r / 12)"
  have "0 \<le> r / 12" "r / 12 \<le> 1 / 2 ^ 54" using assms(3,4) by simp_all
  then have qb: "0 \<le> q \<and> q \<le> 1 / 2 ^ 54"
    unfolding q_def using fl_zero fl_pow2_neg[of 54] by (intro fl_between) simp_all
  have "\<bar>r / 12\<bar> \<le> 2 ^ 1023" using assms(3,4) by simp
  then have 1: "fdiv (Fin r) (Fin 12) = Inr (Fin q)" by (simp add: q_def rnd_Fin)
  define m where "m = fl (q / 100)"
  have "0 \<le> q / 100" "q / 100 \<le> 1 / 2 ^ 54" using qb by simp_all
  then have mb: "0 \<le> m \<and> m \<le> 1 / 2 ^ 54"
    unfolding m_def using fl_zero fl_pow2_neg[of 54] by (intro fl_between) simp_all
  have "\<bar>q / 100\<bar> \<le> 2 ^ 1023" using qb by simp
  then have 2: "fdiv (Fin q) (Fin 100) = Inr (Fin m)" by (simp add: m_def rnd_Fin)
  have "fl (1 + m) = of_int (2 ^ 52) * 2 powi (max (0 - 52) (- 1074))"
    using mb by (intro fl_near) (simp_all add: power_int_minus_divide field_simps)
  then have "fl (1 + m) = 1" by (simp add: power_int_minus_divide)
  moreover have "\<bar>1 + m\<bar> \<le> 2 ^ 1023" using mb by simp
  ultimately have 3: "fadd (Fin 1) (Fin m) = Fin 1" by (simp add: rnd_Fin)
  have 4: "float_pow (Fin 1) (years * 12) = Inr (Fin 1)"
    using assms(1,2) by (intro float_pow_one) simp_all
  have 5: "fsub (Fin 1) (Fin 1) = Fin 0" by (simp add: fsub_def rnd_zero)
  have nz: "\<not> feq (Fin r) (Fin 0)" using assms(3) by (simp add: feq_def)
  show ?thesis
    unfolding calculate_monthly_payment_def Let_def
    by (simp add: nz 1 2 3 4 5 fdiv_zero bind_r_def del: fdiv.simps fadd.simps fmul.simps)
qed

lemma zero_rate_exact:
  assumes "1 \<le> years" "years \<le> 30" "fsub loan down = Fin p"
    and "fl (p / of_int (years * 12)) = p / of_int (years * 12)"
    and "fdiv (fsub loan down) (Fin (of_int (years * 12))) = Inr mp"
  shows "fsub (fmul mp (Fin (of_int (years * 12)))) (fsub loan down) = Fin 0"
proof -
  define n where "n = (of_int (years * 12) :: rat)"
  have n: "1 \<le> n" using assms(1) by (simp add: n_def)
  from fsub_eq_Fin[OF assms(3)] have p: "fl p = p" "\<bar>p\<bar> < 2 ^ 1024" by simp_all
  have "\<bar>p\<bar> * 1 \<le> \<bar>p\<bar> * n" using n by (intro mult_left_mono) simp_all
  then have "\<bar>p / n\<bar> \<le> \<bar>p\<bar>" using n by (simp add: abs_divide pos_divide_le_eq)
  then have "\<bar>p / n\<bar> < 2 ^ 1024" using p(2) by simp
  then have "rnd (p / n) = Fin (p / n)" using assms(4) by (intro rnd_exact) (simp_all add: n_def)
  moreover have "fdiv (Fin p) (Fin n) = Inr mp" using assms(5) unfolding assms(3) n_def .
  ultimately have mp: "mp = Fin (p / n)" using n by simp
  have "p / n * n = p" using n by simp
  then have "fmul mp (Fin n) = Fin p" using p by (simp add: mp rnd_exact)
  then have "fsub (fmul mp (Fin n)) (Fin p) = Fin 0" by (simp add: fsub_def rnd_zero)
  then show ?thesis unfolding assms(3) n_def .
qed

section \<open>Facts about the parser\<close>

lemmas parse_defs = parse_number_def py_float_def strip_def float_strip_def replace_char_def
  remove_char_def py_isspace_def float_isspace_def is_digit_def parse_decimal_def
  parse_inf_or_nan_def parse_exponent_def digits_val_def lower_def Let_def

lemma parse_thousands: "parse_number ''5 000 000'' = Some (rnd 5000000)" by (simp add: parse_defs)
lemma parse_comma: "parse_number ''12,5'' = Some (rnd (25 / 2))" by (simp add: parse_defs power_int_minus_divide)
lemma parse_two_points: "parse_number ''12.5.5'' = None" by (simp add: parse_defs)
lemma parse_empty: "parse_number '''' = None" by (simp add: parse_defs)
lemma parse_padded: "parse_number ''  5000  '' = Some (rnd 5000)" by (simp add: parse_defs)
lemma parse_nan: "parse_number ''nan'' = Some NaN" by (simp add: parse_defs)
lemma parse_abc: "parse_number ''abc'' = None" by (simp add: parse_defs)


lemma count_dropWhile: "\<not> P c \<Longrightarrow> count_list (dropWhile P s) c = count_list s c"
  by (induction s) auto

lemma count_rev: "count_list (rev s) c = count_list s c"
  by (induction s) auto

lemma count_strip: "\<not> py_isspace c \<Longrightarrow> count_list (strip s) c = count_list s c"
  by (simp add: strip_def count_rev count_dropWhile)

lemma count_float_strip: "\<not> float_isspace c \<Longrightarrow> count_list (float_strip s) c = count_list s c"
  by (simp add: float_strip_def count_rev count_dropWhile)

lemma count_replace:
  "a \<noteq> b \<Longrightarrow> count_list (replace_char a b s) b = count_list s b + count_list s a"
  by (induction s) (auto simp: replace_char_def)

lemma count_remove: "c \<noteq> a \<Longrightarrow> count_list (remove_char a s) c = count_list s c"
  by (induction s) (auto simp: remove_char_def)

lemma count_split_sign:
  "c \<noteq> CHR ''-'' \<Longrightarrow> c \<noteq> CHR ''+'' \<Longrightarrow> count_list (snd (split_sign s)) c = count_list s c"
  by (cases s) auto

lemma count_pos_mem: "0 < count_list s c \<Longrightarrow> c \<in> set s"
  by (induction s) (auto split: if_splits)

lemma parse_exponent_dot:
  assumes "CHR ''.'' \<in> set r"
  shows "parse_exponent r = None"
proof (cases r)
  case Nil
  then show ?thesis using assms by simp
next
  case (Cons c cs)
  show ?thesis
  proof (cases "c = CHR ''e'' \<or> c = CHR ''E''")
    case True
    then have "CHR ''.'' \<in> set cs" using assms Cons by auto
    then have "0 < count_list cs CHR ''.''" by (induction cs) auto
    then have "0 < count_list (snd (split_sign cs)) CHR ''.''" by (simp add: count_split_sign)
    then have "CHR ''.'' \<in> set (snd (split_sign cs))" by (rule count_pos_mem)
    moreover have "\<not> is_digit CHR ''.''" by (simp add: is_digit_def)
    ultimately have "\<not> list_all is_digit (snd (split_sign cs))"
      unfolding list_all_iff by blast
    then show ?thesis using True Cons
      by (auto simp: parse_exponent_def split: prod.splits)
  next
    case False
    then show ?thesis using Cons by (simp add: parse_exponent_def)
  qed
qed

lemma parse_decimal_two_dots:
  assumes "2 \<le> count_list d CHR ''.''"
  shows "parse_decimal d = None"
proof -
  define body where "body = snd (split_sign d)"
  define r1 where "r1 = dropWhile is_digit body"
  define r2 where "r2 = (if r1 \<noteq> [] \<and> hd r1 = CHR ''.'' then dropWhile is_digit (tl r1) else r1)"
  have nd: "\<not> is_digit CHR ''.''" by (simp add: is_digit_def)
  have "count_list body CHR ''.'' = count_list d CHR ''.''"
    unfolding body_def by (rule count_split_sign) simp_all
  then have c1: "2 \<le> count_list r1 CHR ''.''"
    using assms by (simp add: r1_def count_dropWhile[of is_digit, OF nd])
  have "0 < count_list r2 CHR ''.''"
  proof (cases "r1 \<noteq> [] \<and> hd r1 = CHR ''.''")
    case True
    then obtain t where t: "r1 = CHR ''.'' # t" by (cases r1) auto
    then have "1 \<le> count_list t CHR ''.''" using c1 by simp
    then show ?thesis using True t by (simp add: r2_def count_dropWhile[of is_digit, OF nd])
  next
    case False
    then have "r2 = r1" by (auto simp: r2_def)
    then show ?thesis using c1 by simp
  qed
  then have "CHR ''.'' \<in> set r2" by (rule count_pos_mem)
  then have pe: "parse_exponent r2 = None" by (rule parse_exponent_dot)
  obtain neg where sp: "split_sign d = (neg, body)"
    unfolding body_def by (cases "split_sign d") simp
  show ?thesis
    unfolding parse_decimal_def sp Let_def prod.case r1_def[symmetric] r2_def[symmetric]
    using pe by simp
qed

lemma parse_inf_or_nan_dot:
  assumes "CHR ''.'' \<in> set d"
  shows "parse_inf_or_nan d = None"
proof -
  have "0 < count_list d CHR ''.''" using assms by (induction d) auto
  then have "0 < count_list (snd (split_sign d)) CHR ''.''" by (simp add: count_split_sign)
  then have "CHR ''.'' \<in> set (snd (split_sign d))" by (rule count_pos_mem)
  then have "lower CHR ''.'' \<in> set (map lower (snd (split_sign d)))" by simp
  then have m: "CHR ''.'' \<in> set (map lower (snd (split_sign d)))" by (simp add: lower_def)
  have "map lower (snd (split_sign d)) \<noteq> ''inf''" "map lower (snd (split_sign d)) \<noteq> ''infinity''"
    "map lower (snd (split_sign d)) \<noteq> ''nan''"
    using m by auto
  then show ?thesis by (cases "split_sign d") (simp add: parse_inf_or_nan_def Let_def)
qed

lemma parse_number_two_dots:
  assumes "2 \<le> count_list text CHR ''.'' + count_list text CHR '',''"
  shows "parse_number text = None"
proof -
  define cl where "cl = remove_char CHR '' '' (replace_char CHR '','' CHR ''.'' (strip text))"
  define d where "d = remove_char CHR ''_'' (float_strip cl)"
  have "count_list cl CHR ''.'' = count_list text CHR ''.'' + count_list text CHR '',''"
    by (simp add: cl_def count_remove count_replace count_strip py_isspace_def)
  then have "2 \<le> count_list d CHR ''.''"
    using assms by (simp add: d_def count_remove count_float_strip float_isspace_def)
  then have "parse_decimal d = None" "CHR ''.'' \<in> set d"
    by (auto intro: parse_decimal_two_dots count_pos_mem)
  then show ?thesis
    by (simp add: parse_number_def py_float_def Let_def cl_def[symmetric] d_def[symmetric]
        parse_inf_or_nan_dot)
qed


lemma takeWhile_none: "\<forall>c\<in>set xs. \<not> P c \<Longrightarrow> takeWhile P xs = []"
  by (cases xs) auto

lemma set_split_sign: "set (snd (split_sign s)) \<subseteq> set s"
  by (cases s) auto

lemma set_dropWhile_subset: "set (dropWhile P xs) \<subseteq> set xs"
  by (auto dest: set_dropWhileD)

lemma set_strip_gen: "set (rev (dropWhile P (rev (dropWhile P s)))) \<subseteq> set s"
proof -
  have "set (dropWhile P (rev (dropWhile P s))) \<subseteq> set (rev (dropWhile P s))"
    by (rule set_dropWhile_subset)
  also have "\<dots> = set (dropWhile P s)" by simp
  also have "\<dots> \<subseteq> set s" by (rule set_dropWhile_subset)
  finally show ?thesis by simp
qed

lemma set_strip: "set (strip s) \<subseteq> set s"
  unfolding strip_def by (rule set_strip_gen)

lemma set_float_strip: "set (float_strip s) \<subseteq> set s"
  unfolding float_strip_def by (rule set_strip_gen)

lemma parse_decimal_no_digit:
  assumes "\<forall>c\<in>set s. \<not> is_digit c"
  shows "parse_decimal s = None"
proof -
  define body where "body = snd (split_sign s)"
  obtain neg where sp: "split_sign s = (neg, body)"
    unfolding body_def by (cases "split_sign s") simp
  have b: "\<forall>c\<in>set body. \<not> is_digit c"
    using assms set_split_sign[of s] unfolding body_def by blast
  then have ip: "takeWhile is_digit body = []" by (rule takeWhile_none)
  have "set (tl (dropWhile is_digit body)) \<subseteq> set body"
    by (metis list.set_sel(2) set_dropWhileD subsetI tl_Nil)
  then have "\<forall>c\<in>set (tl (dropWhile is_digit body)). \<not> is_digit c" using b by blast
  then have fp: "takeWhile is_digit (tl (dropWhile is_digit body)) = []" by (rule takeWhile_none)
  show ?thesis unfolding parse_decimal_def sp Let_def prod.case by (simp add: ip fp)
qed

lemma parse_inf_or_nan_range:
  "parse_inf_or_nan d \<in> {None, Some PInf, Some NInf, Some NaN}"
  by (cases "split_sign d") (simp add: parse_inf_or_nan_def Let_def)

lemma lower_n:
  assumes "lower c = CHR ''n''"
  shows "c = CHR ''n'' \<or> c = CHR ''N''"
proof (cases "65 \<le> (of_char c :: nat) \<and> (of_char c :: nat) \<le> 90")
  case True
  then have "char_of ((of_char c :: nat) + 32) = CHR ''n''" using assms by (simp add: lower_def)
  then have "(of_char (char_of ((of_char c :: nat) + 32)) :: nat) = of_char CHR ''n''" by simp
  then have "((of_char c :: nat) + 32) mod 256 = 110" by (simp add: of_char_of)
  then have "(of_char c :: nat) = 78" using True by simp
  then have "(of_char c :: nat) = of_char CHR ''N''" by simp
  then have "c = CHR ''N''" by (simp only: of_char_eq_iff)
  then show ?thesis by simp
next
  case False
  then have "lower c = c" unfolding lower_def by (rule if_not_P)
  then show ?thesis using assms by simp
qed

lemma parse_inf_or_nan_no_n:
  assumes "CHR ''n'' \<notin> set d" "CHR ''N'' \<notin> set d"
  shows "parse_inf_or_nan d = None"
proof -
  define body where "body = snd (split_sign d)"
  obtain neg where sp: "split_sign d = (neg, body)"
    unfolding body_def by (cases "split_sign d") simp
  have b: "CHR ''n'' \<notin> set body" "CHR ''N'' \<notin> set body"
    using assms set_split_sign[of d] unfolding body_def by blast+
  have "CHR ''n'' \<notin> set (map lower body)"
  proof
    assume "CHR ''n'' \<in> set (map lower body)"
    then obtain c where "c \<in> set body" "lower c = CHR ''n''" by auto
    then show False using lower_n b by blast
  qed
  then have "map lower body \<noteq> ''inf''" "map lower body \<noteq> ''infinity''"
    "map lower body \<noteq> ''nan''" by auto
  then show ?thesis by (simp add: parse_inf_or_nan_def sp Let_def)
qed

lemma cleaned_chars:
  "set (remove_char CHR '' '' (replace_char CHR '','' CHR ''.'' (strip text)))
     \<subseteq> insert CHR ''.'' (set text)"
  using set_strip[of "text"] by (auto simp: remove_char_def replace_char_def)

lemma parse_number_no_digit:
  assumes "\<forall>c\<in>set text. \<not> is_digit c"
  shows "parse_number text \<in> {None, Some PInf, Some NInf, Some NaN}"
    and "CHR ''n'' \<notin> set text \<Longrightarrow> CHR ''N'' \<notin> set text \<Longrightarrow> parse_number text = None"
proof -
  define cl where "cl = remove_char CHR '' '' (replace_char CHR '','' CHR ''.'' (strip text))"
  define d where "d = remove_char CHR ''_'' (float_strip cl)"
  have sub: "set d \<subseteq> insert CHR ''.'' (set text)"
    using cleaned_chars[of "text"] set_float_strip[of cl]
    by (auto simp: d_def cl_def remove_char_def)
  have "\<not> is_digit CHR ''.''" by (simp add: is_digit_def)
  then have "\<forall>c\<in>set d. \<not> is_digit c" using sub assms by blast
  then have pd: "parse_decimal d = None" by (rule parse_decimal_no_digit)
  have eq: "parse_number text =
      (if \<not> underscores_ok (CHR 0x00) (float_strip cl) then None else parse_inf_or_nan d)"
    by (simp add: parse_number_def py_float_def Let_def cl_def[symmetric] d_def[symmetric] pd)
  show "parse_number text \<in> {None, Some PInf, Some NInf, Some NaN}"
    using parse_inf_or_nan_range[of d] by (simp add: eq)
  show "parse_number text = None" if "CHR ''n'' \<notin> set text" "CHR ''N'' \<notin> set text"
  proof -
    have "CHR ''n'' \<notin> set d" "CHR ''N'' \<notin> set d" using sub that by auto
    then show ?thesis by (simp add: eq parse_inf_or_nan_no_n)
  qed
qed

section \<open>Facts about the handlers and the routing\<close>

lemma session_ok_None: "session_ok None so \<longleftrightarrow> so = None"
  by (simp add: session_ok_def)

lemma session_ok_END: "\<not> session_ok (Some END) so"
  by (simp add: session_ok_def)

lemma session_ok_LOAN_AMOUNT:
  "session_ok (Some LOAN_AMOUNT) so \<longleftrightarrow>
     (\<exists>s. so = Some s \<and> loan_amount s = None \<and> down_payment s = None
          \<and> loan_term s = None \<and> interest_rate s = None)"
  by (cases so) (auto simp: session_ok_def split: option.splits)

lemma session_ok_DOWN_PAYMENT:
  "session_ok (Some DOWN_PAYMENT) so \<longleftrightarrow>
     (\<exists>s a. so = Some s \<and> loan_amount s = Some a \<and> loan_ok a \<and> down_payment s = None
          \<and> loan_term s = None \<and> interest_rate s = None)"
  by (cases so) (auto simp: session_ok_def split: option.splits)

lemma session_ok_LOAN_TERM:
  "session_ok (Some LOAN_TERM) so \<longleftrightarrow>
     (\<exists>s a d. so = Some s \<and> loan_amount s = Some a \<and> loan_ok a
          \<and> down_payment s = Some d \<and> down_ok a d
          \<and> loan_term s = None \<and> interest_rate s = None)"
  by (cases so) (auto simp: session_ok_def split: option.splits)

lemma session_ok_INTEREST_RATE:
  "session_ok (Some INTEREST_RATE) so \<longleftrightarrow>
     (\<exists>s a d y. so = Some s \<and> loan_amount s = Some a \<and> loan_ok a
          \<and> down_payment s = Some d \<and> down_ok a d
          \<and> loan_term s = Some y \<and> term_ok y \<and> interest_rate s = None)"
  by (cases so) (auto simp: session_ok_def split: option.splits)

lemmas session_ok_simps = session_ok_None session_ok_END session_ok_LOAN_AMOUNT
  session_ok_DOWN_PAYMENT session_ok_LOAN_TERM session_ok_INTEREST_RATE

lemma start_ok:
  "start chat ss = Returned (ss(chat \<mapsto> new_session)) Welcome LOAN_AMOUNT"
  by (auto simp: start_def get_session_def clear_session_def)

lemma cancel_ok: "cancel chat ss = Returned (ss(chat := None)) Cancelled END"
  by (auto simp: cancel_def clear_session_def)


lemma get_session_Some: "ss chat = Some s \<Longrightarrow> get_session chat ss = (ss, s)"
  by (simp add: get_session_def)

lemma get_session_frame: "c \<noteq> chat \<Longrightarrow> fst (get_session chat ss) c = ss c"
  by (simp add: get_session_def split: option.splits)

lemma start_frame: "c \<noteq> chat \<Longrightarrow> outcome_store (start chat ss) c = ss c"
  by (simp add: start_ok outcome_store_def)

lemma cancel_frame: "c \<noteq> chat \<Longrightarrow> outcome_store (cancel chat ss) c = ss c"
  by (simp add: cancel_ok outcome_store_def)

lemma handle_loan_amount_frame:
  "c \<noteq> chat \<Longrightarrow> outcome_store (handle_loan_amount chat txt ss) c = ss c"
  by (auto simp: handle_loan_amount_def outcome_store_def get_session_def
           split: option.splits)

lemma handle_down_payment_frame:
  "c \<noteq> chat \<Longrightarrow> outcome_store (handle_down_payment chat txt ss) c = ss c"
  by (auto simp: handle_down_payment_def outcome_store_def get_session_def Let_def
           split: option.splits)

lemma handle_loan_term_frame:
  "c \<noteq> chat \<Longrightarrow> outcome_store (handle_loan_term chat txt ss) c = ss c"
  by (auto simp: handle_loan_term_def outcome_store_def get_session_def
           split: option.splits sum.splits)

lemma handle_interest_rate_frame:
  "c \<noteq> chat \<Longrightarrow> outcome_store (handle_interest_rate chat txt ss) c = ss c"
  by (auto simp: handle_interest_rate_def outcome_store_def get_session_def Let_def
                 clear_session_def
           split: option.splits sum.splits)

lemma state_handler_frame:
  "c \<noteq> chat \<Longrightarrow> outcome_store (state_handler st chat txt ss) c = ss c"
  by (cases st)
     (simp_all add: state_handler_def handle_loan_amount_frame handle_down_payment_frame
        handle_loan_term_frame handle_interest_rate_frame)

lemma finish_store: "store (fst (finish chat sys out)) = outcome_store out"
  by (cases out) (simp_all add: finish_def outcome_store_def)

lemma finish_convs_frame: "c \<noteq> chat \<Longrightarrow> convs (fst (finish chat sys out)) c = convs sys c"
  by (cases out) (simp_all add: finish_def)

lemma process_update_frame:
  assumes "c \<noteq> chat"
  shows "convs (fst (process_update chat t sys)) c = convs sys c"
    and "store (fst (process_update chat t sys)) c = store sys c"
  using assms
  by (auto simp: process_update_def finish_store finish_convs_frame start_frame cancel_frame
        state_handler_frame split: option.splits turn.splits)


lemma py_int_accepted:
  assumes "fle (Fin 1) y" "fle y (Fin 30)"
  shows "\<exists>n. py_int y = Inr n \<and> 1 \<le> n \<and> n \<le> 30"
proof -
  from assms obtain r where r: "y = Fin r" "1 \<le> r" "r \<le> 30" by (rule fle_Fin_cases)
  have "1 \<le> \<lfloor>r\<rfloor>" using r(2) by (simp add: le_floor_iff)
  moreover have "\<lfloor>r\<rfloor> \<le> 30" using r(3) by (simp add: floor_le_iff)
  ultimately show ?thesis using r by simp
qed

lemma MIN_rate: "MIN_INTEREST_RATE = Fin (3602879701896397 / 36028797018963968)"
  using rnd_Fin[of "1 / 10"] fl_tenth by (simp add: MIN_INTEREST_RATE_def)

lemma MAX_rate: "MAX_INTEREST_RATE = Fin 30"
  using rnd_Fin[of 30] fl_of_int[of 30] by (simp add: MAX_INTEREST_RATE_def)

lemma rate_ok_bounds:
  assumes "rate_ok r"
  shows "fle (Fin (1 / 2 ^ 30)) r \<and> fle r (Fin 30)"
  using assms unfolding rate_ok_def MIN_rate MAX_rate
  by (cases r) (auto simp: fle_def feq_def)

lemma calc_accepted:
  assumes "term_ok y" "rate_ok r"
  shows "\<exists>res. calculate_monthly_payment a d y r = Inr res"
proof -
  have y: "1 \<le> y" "y \<le> 30"
    using assms(1) by (simp_all add: term_ok_def MIN_LOAN_TERM_YEARS_def MAX_LOAN_TERM_YEARS_def)
  from rate_ok_bounds[OF assms(2)] have "fle (Fin (1 / 2 ^ 30)) r" "fle r (Fin 30)" by simp_all
  from calc_pos_rate[OF y this, of a d] show ?thesis by blast
qed


lemma handle_loan_amount_out:
  assumes "ss chat = Some s"
  shows "handle_loan_amount chat txt ss =
           (case parse_number txt of
              None \<Rightarrow> Returned ss InvalidLoanAmount LOAN_AMOUNT
            | Some a \<Rightarrow>
                if loan_ok a
                then Returned (ss(chat \<mapsto> s\<lparr>loan_amount := Some a\<rparr>)) (LoanAmountOk a) DOWN_PAYMENT
                else Returned ss InvalidLoanAmount LOAN_AMOUNT)"
  by (simp add: handle_loan_amount_def get_session_Some[of ss chat s, OF assms] loan_ok_def
      split: option.splits)

lemma handle_down_payment_out:
  assumes "ss chat = Some s" "loan_amount s = Some la"
  shows "handle_down_payment chat txt ss =
           (case parse_number txt of
              None \<Rightarrow> Returned ss InvalidDownPayment DOWN_PAYMENT
            | Some d \<Rightarrow>
                if flt d (Fin 0) then Returned ss InvalidDownPayment DOWN_PAYMENT
                else if fge d la then Returned ss (DownPaymentTooLarge d la) DOWN_PAYMENT
                else Returned (ss(chat \<mapsto> s\<lparr>down_payment := Some d\<rparr>)) (DownPaymentOk d) LOAN_TERM)"
  by (simp add: handle_down_payment_def get_session_Some[of ss chat s, OF assms(1)] assms(2)
      split: option.splits)

lemma handle_loan_term_out:
  assumes "ss chat = Some s"
  shows "handle_loan_term chat txt ss =
           (case parse_number txt of
              None \<Rightarrow> Returned ss InvalidLoanTerm LOAN_TERM
            | Some years \<Rightarrow>
                if fle (Fin 1) years \<and> fle years (Fin 30)
                then (case py_int years of
                        Inl e \<Rightarrow> Raised ss e
                      | Inr y \<Rightarrow> Returned (ss(chat \<mapsto> s\<lparr>loan_term := Some y\<rparr>)) (LoanTermOk y)
                                  INTEREST_RATE)
                else Returned ss InvalidLoanTerm LOAN_TERM)"
  by (simp add: handle_loan_term_def get_session_Some[of ss chat s, OF assms] MIN_LOAN_TERM_YEARS_def
      MAX_LOAN_TERM_YEARS_def split: option.splits)

lemma handle_interest_rate_out:
  assumes "ss chat = Some s" "loan_amount s = Some la" "down_payment s = Some dp"
    "loan_term s = Some lt"
  shows "handle_interest_rate chat txt ss =
           (case parse_number txt of
              None \<Rightarrow> Returned ss InvalidInterestRate INTEREST_RATE
            | Some rate \<Rightarrow>
                if rate_ok rate
                then (case calculate_monthly_payment la dp lt rate of
                        Inl e \<Rightarrow> Raised (ss(chat \<mapsto> s\<lparr>interest_rate := Some rate\<rparr>)) e
                      | Inr result \<Rightarrow>
                          Returned (ss(chat := None)) (Results la dp lt rate result) END)
                else Returned ss InvalidInterestRate INTEREST_RATE)"
  by (simp add: handle_interest_rate_def get_session_Some[of ss chat s, OF assms(1)] assms(2-4) rate_ok_def
      clear_session_def Let_def split: option.splits sum.splits)


lemma pu_start:
  "process_update chat StartCmd sys =
     (\<lparr>convs = (convs sys)(chat \<mapsto> LOAN_AMOUNT), store = (store sys)(chat \<mapsto> new_session)\<rparr>,
      Reply Welcome)"
  by (simp add: process_update_def start_ok finish_def split: option.splits)

lemma pu_cancel_some:
  "convs sys chat = Some st \<Longrightarrow>
   process_update chat CancelCmd sys =
     (\<lparr>convs = (convs sys)(chat := None), store = (store sys)(chat := None)\<rparr>, Reply Cancelled)"
  by (simp add: process_update_def cancel_ok finish_def)

lemma pu_cancel_none: "convs sys chat = None \<Longrightarrow> process_update chat CancelCmd sys = (sys, Silent)"
  by (simp add: process_update_def)

lemma pu_help: "process_update chat HelpCmd sys = (sys, Reply HelpText)"
  by (simp add: process_update_def help_command_def split: option.splits)

lemma pu_other: "process_update chat OtherCmd sys = (sys, Silent)"
  by (simp add: process_update_def split: option.splits)

lemma pu_text_none:
  "convs sys chat = None \<Longrightarrow> process_update chat (Text txt) sys = (sys, Reply Greeting)"
  by (simp add: process_update_def handle_unknown_def)

lemma pu_text_some:
  "convs sys chat = Some st \<Longrightarrow>
   process_update chat (Text txt) sys = finish chat sys (state_handler st chat txt (store sys))"
  by (simp add: process_update_def)

lemma text_step_ok:
  assumes c: "convs sys chat = Some st" and ok: "session_ok (Some st) (store sys chat)"
  shows "session_ok (convs (fst (process_update chat (Text txt) sys)) chat)
           (store (fst (process_update chat (Text txt) sys)) chat)
         \<and> (\<forall>e. snd (process_update chat (Text txt) sys) \<noteq> Fault e)"
proof (cases st)
  case LOAN_AMOUNT
  with ok obtain s where s: "store sys chat = Some s" "loan_amount s = None"
    "down_payment s = None" "loan_term s = None" "interest_rate s = None"
    by (auto simp: session_ok_simps)
  show ?thesis
    unfolding pu_text_some[OF c] LOAN_AMOUNT
    by (auto simp: state_handler_def handle_loan_amount_out[where ss="store sys" and chat=chat, OF s(1)] finish_def c LOAN_AMOUNT
          session_ok_simps s split: option.splits)
next
  case DOWN_PAYMENT
  with ok obtain s a where s: "store sys chat = Some s" "loan_amount s = Some a" "loan_ok a"
    "down_payment s = None" "loan_term s = None" "interest_rate s = None"
    by (auto simp: session_ok_simps)
  show ?thesis
    unfolding pu_text_some[OF c] DOWN_PAYMENT
    by (auto simp: state_handler_def handle_down_payment_out[where ss="store sys" and chat=chat, OF s(1,2)] finish_def c
          DOWN_PAYMENT session_ok_simps s down_ok_def split: option.splits)
next
  case LOAN_TERM
  with ok obtain s a d where s: "store sys chat = Some s" "loan_amount s = Some a" "loan_ok a"
    "down_payment s = Some d" "down_ok a d" "loan_term s = None" "interest_rate s = None"
    by (auto simp: session_ok_simps)
  note out = handle_loan_term_out[where ss="store sys" and chat=chat, OF s(1)]
  show ?thesis
  proof (cases "parse_number txt")
    case None
    then show ?thesis
      unfolding pu_text_some[OF c] LOAN_TERM
      by (simp add: state_handler_def out finish_def c LOAN_TERM session_ok_simps s)
  next
    case (Some yrs)
    show ?thesis
    proof (cases "fle (Fin 1) yrs \<and> fle yrs (Fin 30)")
      case True
      then obtain n where n: "py_int yrs = Inr n" "1 \<le> n" "n \<le> 30"
        using py_int_accepted by blast
      then show ?thesis
        unfolding pu_text_some[OF c] LOAN_TERM
        using True
        by (simp add: state_handler_def out Some finish_def session_ok_simps s term_ok_def
              MIN_LOAN_TERM_YEARS_def MAX_LOAN_TERM_YEARS_def)
    next
      case False
      then show ?thesis
        unfolding pu_text_some[OF c] LOAN_TERM
        by (auto simp: state_handler_def out Some finish_def c LOAN_TERM session_ok_simps s)
    qed
  qed
next
  case INTEREST_RATE
  with ok obtain s a d y where s: "store sys chat = Some s" "loan_amount s = Some a" "loan_ok a"
    "down_payment s = Some d" "down_ok a d" "loan_term s = Some y" "term_ok y"
    "interest_rate s = None"
    by (auto simp: session_ok_simps)
  note out = handle_interest_rate_out[where ss="store sys" and chat=chat, OF s(1,2,4,6)]
  show ?thesis
  proof (cases "parse_number txt")
    case None
    then show ?thesis
      unfolding pu_text_some[OF c] INTEREST_RATE
      by (simp add: state_handler_def out finish_def c INTEREST_RATE session_ok_simps s)
  next
    case (Some rate)
    show ?thesis
    proof (cases "rate_ok rate")
      case True
      then obtain res where "calculate_monthly_payment a d y rate = Inr res"
        using calc_accepted[OF s(7)] by blast
      then show ?thesis
        unfolding pu_text_some[OF c] INTEREST_RATE
        using True
        by (simp add: state_handler_def out Some finish_def session_ok_simps)
    next
      case False
      then show ?thesis
        unfolding pu_text_some[OF c] INTEREST_RATE
        by (simp add: state_handler_def out Some finish_def c INTEREST_RATE session_ok_simps s)
    qed
  qed
next
  case END
  with ok show ?thesis by (simp add: session_ok_simps)
qed


lemma chat_step_ok:
  assumes "session_ok (convs sys chat) (store sys chat)"
  shows "session_ok (convs (fst (process_update chat t sys)) chat)
           (store (fst (process_update chat t sys)) chat)
         \<and> (\<forall>e. snd (process_update chat t sys) \<noteq> Fault e)"
proof (cases t)
  case StartCmd
  then show ?thesis by (simp add: pu_start session_ok_simps new_session_def)
next
  case CancelCmd
  then show ?thesis
    using assms by (cases "convs sys chat") (simp_all add: pu_cancel_none pu_cancel_some session_ok_simps)
next
  case HelpCmd
  then show ?thesis using assms by (simp add: pu_help)
next
  case OtherCmd
  then show ?thesis using assms by (simp add: pu_other)
next
  case (Text msg)
  show ?thesis
  proof (cases "convs sys chat")
    case None
    then show ?thesis using assms by (simp add: Text pu_text_none)
  next
    case (Some st)
    then show ?thesis using assms text_step_ok[of sys chat st msg] by (simp add: Text)
  qed
qed

lemma process_update_invariant:
  assumes "invariant sys"
  shows "invariant (fst (process_update chat t sys))"
    and "\<forall>e. snd (process_update chat t sys) \<noteq> Fault e"
proof -
  have ok: "session_ok (convs sys c) (store sys c)" for c
    using assms by (simp add: invariant_def)
  show "\<forall>e. snd (process_update chat t sys) \<noteq> Fault e"
    using chat_step_ok[OF ok] by blast
  show "invariant (fst (process_update chat t sys))"
    unfolding invariant_def
  proof
    fix c
    show "session_ok (convs (fst (process_update chat t sys)) c)
            (store (fst (process_update chat t sys)) c)"
    proof (cases "c = chat")
      case True
      then show ?thesis using chat_step_ok[OF ok, of chat t] by simp
    next
      case False
      then show ?thesis using ok[of c] by (simp add: process_update_frame)
    qed
  qed
qed

lemma invariant_init: "invariant init"
  by (simp add: invariant_def init_def session_ok_simps)

lemma run_invariant: "invariant sys \<Longrightarrow> invariant (run ts sys)"
proof (induction ts arbitrary: sys)
  case Nil
  then show ?case by simp
next
  case (Cons p ts)
  obtain chat t where p: "p = (chat, t)" by (cases p)
  show ?case using Cons.IH[OF process_update_invariant(1)[OF Cons.prems]] by (simp add: p)
qed

section \<open>The calculator claims\<close>

lemma calc_1000_over_5_years:
  "calculate_monthly_payment (Fin 1000) (Fin 0) 5 (Fin 0) =
     Inr \<lparr>principal = Fin 1000,
          monthly_payment = Fin (4691249611844267 / 281474976710656),
          total_payment = Fin (8796093022208001 / 8796093022208),
          total_interest = Fin (1 / 8796093022208), months = 60\<rparr>"
proof -
  have p: "fsub (Fin 1000) (Fin 0) = Fin 1000"
    using rnd_Fin[of 1000] fl_of_int[of 1000] by (simp add: fsub_def)
  have m: "int_to_float 60 = Inr (Fin 60)" using int_to_float_small[of 60] by simp
  have d: "fdiv (Fin 1000) (Fin 60) = Inr (Fin (4691249611844267 / 281474976710656))"
    using rnd_Fin[of "1000 / 60"] fl_1000_div_60 by simp
  have t: "fmul (Fin (4691249611844267 / 281474976710656)) (Fin 60)
             = Fin (8796093022208001 / 8796093022208)"
    using rnd_Fin[of "4691249611844267 / 281474976710656 * 60"] fl_monthly_times_60 by simp
  have i: "fsub (Fin (8796093022208001 / 8796093022208)) (Fin 1000) = Fin (1 / 8796093022208)"
    using rnd_Fin[of "1 / 2 ^ 43"] fl_pow2_neg[of 43] by (simp add: fsub_def)
  show ?thesis
    unfolding calculate_monthly_payment_def Let_def
    by (simp add: feq_def p m d t i bind_r_def del: fdiv.simps fadd.simps fmul.simps)
qed

theorem zero_rate_interest_counterexample:
  "flt (Fin 0) (Fin 1000) \<and> fle (Fin 0) (Fin 0) \<and> feq (Fin 0) (Fin 0)
   \<and> (\<exists>r. calculate_monthly_payment (Fin 1000) (Fin 0) 5 (Fin 0) = Inr r
          \<and> total_interest r = Fin (1 / 8796093022208) \<and> total_interest r \<noteq> Fin 0)"
  by (simp add: calc_1000_over_5_years fle_def feq_def)


text \<open>
  Where the rate is 0 or at least \<open>2^-30\<close> (which covers every rate the bot lets through)
  the calculator returns, and its result is made as the annuity formula says: the
  principal is \<open>loan - down\<close>, the months are \<open>years * 12\<close>, the monthly payment for a rate
  other than 0 is the formula evaluated on \<open>rate / 12 / 100\<close> in float arithmetic with the
  power of the C library, the total payment is \<open>monthly_payment * months\<close> and the total
  interest is \<open>total_payment - principal\<close>.
\<close>

lemma calculator_result:
  assumes "flt down loan" "fle (Fin 0) down" "1 \<le> years" "years \<le> 30"
    and "feq rate (Fin 0) \<or> (fle (Fin (1 / 2 ^ 30)) rate \<and> fle rate (Fin 30))"
  shows "\<exists>r. calculate_monthly_payment loan down years rate = Inr r
           \<and> principal r = fsub loan down
           \<and> months r = years * 12
           \<and> (\<not> feq rate (Fin 0) \<longrightarrow>
                (\<exists>q mr pw. fdiv rate (Fin 12) = Inr q \<and> fdiv q (Fin 100) = Inr mr
                   \<and> float_pow (fadd (Fin 1) mr) (months r) = Inr pw
                   \<and> fdiv (fmul (principal r) (fmul mr pw)) (fsub pw (Fin 1))
                       = Inr (monthly_payment r)))
           \<and> total_payment r = fmul (monthly_payment r) (Fin (of_int (months r)))
           \<and> total_interest r = fsub (total_payment r) (principal r)"
proof (cases "feq rate (Fin 0)")
  case True
  then have "rate = Fin 0" by (simp add: feq_def)
  then show ?thesis using calc_zero_rate[OF assms(3,4), of loan down] True by auto
next
  case False
  then have "fle (Fin (1 / 2 ^ 30)) rate" "fle rate (Fin 30)" using assms(5) by simp_all
  from calc_pos_rate[OF assms(3,4) this, of loan down] show ?thesis by auto
qed


text \<open>
  Claim C1 fails on the code. The claim covers every rate in \<open>[0, 30]\<close>, and the function
  guards the division with \<open>annual_rate_percent == 0\<close> only. For a positive rate so small
  that \<open>1 + rate / 12 / 100\<close> rounds to \<open>1.0\<close> the power is \<open>1.0\<close>, the denominator
  \<open>(1 + monthly_rate) ** months - 1\<close> is \<open>0.0\<close>, and the call raises \<open>ZeroDivisionError\<close>
  instead of returning a result: here for a loan of 100, no down payment, one year and a
  rate of \<open>2^-60\<close>.
\<close>

theorem tiny_rate_zero_division:
  "flt (Fin 0) (Fin 100) \<and> fle (Fin 0) (Fin 0)
   \<and> fle (Fin 0) (Fin (1 / 2 ^ 60)) \<and> fle (Fin (1 / 2 ^ 60)) (Fin 30)
   \<and> calculate_monthly_payment (Fin 100) (Fin 0) 1 (Fin (1 / 2 ^ 60)) = Inl ZeroDivisionError"
  using tiny_rate_raises[of 1 "1 / 2 ^ 60" "Fin 100" "Fin 0"] by (simp add: fle_def feq_def)

text \<open>
  Claim C8, amended. For every valid input with a rate equal to 0 the monthly payment is
  exactly the float quotient \<open>principal / months\<close>, and the total interest is
  \<open>monthly_payment * months - principal\<close> in float arithmetic: it is exactly 0 whenever
  the quotient \<open>principal / months\<close> is itself a float, so that no rounding happens, and
  can otherwise be a rounding residue (\<open>zero_rate_interest_counterexample\<close>).
\<close>

theorem zero_rate_result:
  assumes "flt down loan" "fle (Fin 0) down" "1 \<le> years" "years \<le> 30" "feq rate (Fin 0)"
  shows "\<exists>r. calculate_monthly_payment loan down years rate = Inr r
           \<and> principal r = fsub loan down
           \<and> months r = years * 12
           \<and> fdiv (principal r) (Fin (of_int (months r))) = Inr (monthly_payment r)
           \<and> total_interest r
               = fsub (fmul (monthly_payment r) (Fin (of_int (months r)))) (principal r)
           \<and> (\<forall>p. principal r = Fin p
                     \<and> fl (p / of_int (months r)) = p / of_int (months r)
                  \<longrightarrow> total_interest r = Fin 0)"
proof -
  have rate: "rate = Fin 0" using assms(5) by (simp add: feq_def)
  from calc_zero_rate[OF assms(3,4), of loan down] obtain mp where
    mp: "fdiv (fsub loan down) (Fin (of_int (years * 12))) = Inr mp"
    and c: "calculate_monthly_payment loan down years (Fin 0) =
              Inr \<lparr>principal = fsub loan down, monthly_payment = mp,
                   total_payment = fmul mp (Fin (of_int (years * 12))),
                   total_interest = fsub (fmul mp (Fin (of_int (years * 12)))) (fsub loan down),
                   months = years * 12\<rparr>"
    by blast
  have "fsub (fmul mp (Fin (of_int (years * 12)))) (fsub loan down) = Fin 0"
    if "fsub loan down = Fin p" "fl (p / of_int (years * 12)) = p / of_int (years * 12)" for p
    using zero_rate_exact[OF assms(3,4) that mp] .
  then show ?thesis using mp c rate by (auto simp del: fdiv.simps fadd.simps fmul.simps)
qed

theorem zero_rate_result_witness:
  "flt (Fin 0) (Fin 1200000) \<and> fle (Fin 0) (Fin 0) \<and> feq (Fin 0) (Fin 0)
   \<and> (\<exists>r. calculate_monthly_payment (Fin 1200000) (Fin 0) 10 (Fin 0) = Inr r
          \<and> principal r = Fin 1200000 \<and> months r = 120
          \<and> monthly_payment r = Fin 10000 \<and> total_interest r = Fin 0)"
proof -
  have h: "flt (Fin 0) (Fin 1200000)" "fle (Fin 0) (Fin 0)" "(1::int) \<le> 10" "(10::int) \<le> 30"
    "feq (Fin 0) (Fin 0)"
    by (simp_all add: fle_def feq_def)
  have p: "fsub (Fin 1200000) (Fin 0) = Fin 1200000"
    using rnd_Fin[of 1200000] fl_of_int[of 1200000] by (simp add: fsub_def)
  have q: "fl (1200000 / of_int (10 * 12)) = 1200000 / of_int (10 * 12)"
    using fl_of_int[of 10000] by simp
  have d: "fdiv (Fin 1200000) (Fin (of_int (10 * 12))) = Inr (Fin 10000)"
    using rnd_Fin[of 10000] fl_of_int[of 10000] by simp
  from zero_rate_result[OF h] obtain r where
    r: "calculate_monthly_payment (Fin 1200000) (Fin 0) 10 (Fin 0) = Inr r"
      "principal r = fsub (Fin 1200000) (Fin 0)" "months r = 10 * 12"
      "fdiv (principal r) (Fin (of_int (months r))) = Inr (monthly_payment r)"
      "\<forall>p. principal r = Fin p \<and> fl (p / of_int (months r)) = p / of_int (months r)
           \<longrightarrow> total_interest r = Fin 0"
    by blast
  have "total_interest r = Fin 0" using r(5) r(2,3) p q by simp
  moreover have "monthly_payment r = Fin 10000" using r(4) r(2,3) p d by simp
  ultimately show ?thesis using r(1,2,3) p h by simp
qed

section \<open>The parser and conversation claims\<close>

lemma rnd_int: "\<bar>n\<bar> < 2 ^ 53 \<Longrightarrow> rnd (of_int n) = Fin (of_int n)"
  using int_to_float_small[of n] by (simp add: int_to_float_def split: pyfloat.splits)

lemma rnd_25_2: "rnd (25 / 2) = Fin (25 / 2)"
  using rnd_Fin[of "25 / 2"] fl_repr[of "- 1" 25] by (simp add: power_int_minus_divide)

lemma parse_5000000: "parse_number ''5 000 000'' = Some (Fin 5000000)"
  using rnd_int[of 5000000] by (simp add: parse_thousands)

lemma parse_12_5: "parse_number ''12,5'' = Some (Fin (25 / 2))"
  by (simp add: parse_comma rnd_25_2)

lemma parse_5000: "parse_number ''  5000  '' = Some (Fin 5000)"
  using rnd_int[of 5000] by (simp add: parse_padded)

lemma parse_inf: "parse_number ''inf'' = Some PInf"
  by (simp add: parse_defs)

text \<open>
  Claim C5 fails on the code. \<open>parse_number\<close> returns \<open>None\<close> for what \<open>float\<close> refuses, as
  for the text \<open>abc\<close>; but \<open>float\<close> accepts the words \<open>nan\<close>, \<open>inf\<close> and \<open>infinity\<close>, which
  are non-numeric text without a single digit, and \<open>parse_number\<close> hands the special float
  to its caller instead of \<open>None\<close>.
\<close>

theorem nan_parses:
  "\<not> (\<exists>c\<in>set ''nan''. is_digit c) \<and> parse_number ''nan'' = Some NaN
   \<and> parse_number ''nan'' \<noteq> None
   \<and> \<not> (\<exists>c\<in>set ''inf''. is_digit c) \<and> parse_number ''inf'' = Some PInf
   \<and> parse_number ''abc'' = None"
  by (simp add: parse_nan parse_inf parse_abc is_digit_def)

lemma parse_zero: "parse_number ''0'' = Some (Fin 0)"
  by (simp add: parse_defs rnd_zero)

lemma parse_12: "parse_number ''12'' = Some (Fin 12)"
  using rnd_int[of 12] by (simp add: parse_defs)

text \<open>
  Claim C6 fails on the code. The text \<open>nan\<close> parses to the float \<open>NaN\<close>, which is not
  greater than 0, and no comparison with \<open>NaN\<close> is true: the check \<open>amount <= 0\<close> of
  \<open>handle_loan_amount\<close> lets it through and it is stored as the loan amount. In the same
  way \<open>handle_down_payment\<close> stores \<open>NaN\<close> as the down payment.
\<close>

theorem nan_accepted:
  "parse_number ''nan'' = Some NaN \<and> \<not> flt (Fin 0) NaN
   \<and> handle_loan_amount 1 ''nan'' (Map.empty(1 \<mapsto> new_session))
       = Returned (Map.empty(1 \<mapsto> new_session\<lparr>loan_amount := Some NaN\<rparr>))
           (LoanAmountOk NaN) DOWN_PAYMENT
   \<and> \<not> (fle (Fin 0) NaN \<and> flt NaN (Fin 5000000))
   \<and> handle_down_payment 1 ''nan''
         (Map.empty(1 \<mapsto> new_session\<lparr>loan_amount := Some (Fin 5000000)\<rparr>))
       = Returned (Map.empty(1 \<mapsto> new_session\<lparr>loan_amount := Some (Fin 5000000),
                                                down_payment := Some NaN\<rparr>))
           (DownPaymentOk NaN) LOAN_TERM"
  by (simp add: parse_nan handle_loan_amount_def handle_down_payment_def get_session_def
        fle_def feq_def fge_def new_session_def)

text \<open>
  Claim C7. At the interest-rate step, in a session whose three earlier fields are set,
  a text is accepted if and only if it parses to a rate \<open>r\<close> with \<open>0.1 \<le> r \<le> 30.0\<close>, the
  bounds being the floats of the default configuration: then the calculator is called on
  the stored fields and \<open>r\<close>, its result is the reply, the session is deleted and the
  conversation ends. Every other text gets the range re-prompt, with the store and the
  step unchanged. The text \<open>0\<close> parses to \<open>0.0\<close> and is rejected with the range re-prompt,
  although for a rate of 0 the calculator returns the straight-line result.
\<close>

theorem interest_rate_gate:
  assumes "ss chat = Some s" "loan_amount s = Some a" "down_payment s = Some d"
    and "loan_term s = Some y" "term_ok y"
  shows "((\<exists>r. parse_number msg = Some r \<and> fle MIN_INTEREST_RATE r \<and> fle r MAX_INTEREST_RATE)
            \<longleftrightarrow> (\<exists>r result. parse_number msg = Some r
                   \<and> calculate_monthly_payment a d y r = Inr result
                   \<and> handle_interest_rate chat msg ss
                       = Returned (ss(chat := None)) (Results a d y r result) END))
         \<and> (\<not> (\<exists>r. parse_number msg = Some r \<and> fle MIN_INTEREST_RATE r
                     \<and> fle r MAX_INTEREST_RATE)
              \<longleftrightarrow> handle_interest_rate chat msg ss
                    = Returned ss InvalidInterestRate INTEREST_RATE)
         \<and> MIN_INTEREST_RATE = rnd (1 / 10)
         \<and> MIN_INTEREST_RATE = Fin (3602879701896397 / 36028797018963968)
         \<and> MAX_INTEREST_RATE = rnd 30 \<and> MAX_INTEREST_RATE = Fin 30
         \<and> parse_number ''0'' = Some (Fin 0)
         \<and> handle_interest_rate chat ''0'' ss = Returned ss InvalidInterestRate INTEREST_RATE
         \<and> (\<exists>mp. fdiv (fsub a d) (Fin (of_int (y * 12))) = Inr mp
                \<and> calculate_monthly_payment a d y (Fin 0)
                    = Inr \<lparr>principal = fsub a d, monthly_payment = mp,
                           total_payment = fmul mp (Fin (of_int (y * 12))),
                           total_interest
                             = fsub (fmul mp (Fin (of_int (y * 12)))) (fsub a d),
                           months = y * 12\<rparr>)"
proof -
  note out = handle_interest_rate_out[where ss=ss and chat=chat, OF assms(1,2,3,4)]
  have acc: "\<exists>result. calculate_monthly_payment a d y r = Inr result
               \<and> handle_interest_rate chat msg ss
                   = Returned (ss(chat := None)) (Results a d y r result) END"
    if "parse_number msg = Some r" "rate_ok r" for r
  proof -
    from calc_accepted[OF assms(5) that(2)] obtain result where
      "calculate_monthly_payment a d y r = Inr result" by blast
    then show ?thesis using that by (simp add: out)
  qed
  have rej: "handle_interest_rate chat msg ss = Returned ss InvalidInterestRate INTEREST_RATE"
    if "\<not> (\<exists>r. parse_number msg = Some r \<and> rate_ok r)"
    using that by (cases "parse_number msg") (simp_all add: out)
  have 1: "(\<exists>r. parse_number msg = Some r \<and> rate_ok r)
            \<longleftrightarrow> (\<exists>r result. parse_number msg = Some r
                   \<and> calculate_monthly_payment a d y r = Inr result
                   \<and> handle_interest_rate chat msg ss
                       = Returned (ss(chat := None)) (Results a d y r result) END)"
  proof
    assume "\<exists>r. parse_number msg = Some r \<and> rate_ok r"
    then obtain r where r: "parse_number msg = Some r" "rate_ok r" by blast
    from acc[OF r] r(1) show "\<exists>r result. parse_number msg = Some r
                   \<and> calculate_monthly_payment a d y r = Inr result
                   \<and> handle_interest_rate chat msg ss
                       = Returned (ss(chat := None)) (Results a d y r result) END"
      by blast
  next
    assume "\<exists>r result. parse_number msg = Some r
                   \<and> calculate_monthly_payment a d y r = Inr result
                   \<and> handle_interest_rate chat msg ss
                       = Returned (ss(chat := None)) (Results a d y r result) END"
    then obtain r result where r: "parse_number msg = Some r"
      "handle_interest_rate chat msg ss
         = Returned (ss(chat := None)) (Results a d y r result) END" by blast
    have "rate_ok r"
    proof (rule ccontr)
      assume "\<not> rate_ok r"
      then have "handle_interest_rate chat msg ss
                   = Returned ss InvalidInterestRate INTEREST_RATE"
        using r(1) by (simp add: out)
      then show False using r(2) by simp
    qed
    then show "\<exists>r. parse_number msg = Some r \<and> rate_ok r" using r(1) by blast
  qed
  have 2: "\<not> (\<exists>r. parse_number msg = Some r \<and> rate_ok r)
            \<longleftrightarrow> handle_interest_rate chat msg ss
                  = Returned ss InvalidInterestRate INTEREST_RATE"
  proof
    assume "\<not> (\<exists>r. parse_number msg = Some r \<and> rate_ok r)"
    then show "handle_interest_rate chat msg ss
                 = Returned ss InvalidInterestRate INTEREST_RATE" by (rule rej)
  next
    assume h: "handle_interest_rate chat msg ss
                 = Returned ss InvalidInterestRate INTEREST_RATE"
    show "\<not> (\<exists>r. parse_number msg = Some r \<and> rate_ok r)"
    proof
      assume "\<exists>r. parse_number msg = Some r \<and> rate_ok r"
      then obtain r where r: "parse_number msg = Some r" "rate_ok r" by blast
      from acc[OF r] show False using h by auto
    qed
  qed
  have 3: "MIN_INTEREST_RATE = rnd (1 / 10)" "MAX_INTEREST_RATE = rnd 30"
    by (simp_all add: MIN_INTEREST_RATE_def MAX_INTEREST_RATE_def)
  have 4: "handle_interest_rate chat ''0'' ss = Returned ss InvalidInterestRate INTEREST_RATE"
    by (simp add: handle_interest_rate_def parse_zero MIN_rate fle_def feq_def)
  have y: "1 \<le> y" "y \<le> 30"
    using assms(5) by (simp_all add: term_ok_def MIN_LOAN_TERM_YEARS_def MAX_LOAN_TERM_YEARS_def)
  note 5 = calc_zero_rate[OF y, of a d]
  show ?thesis
    using 1 2 3 4 5 MIN_rate MAX_rate parse_zero unfolding rate_ok_def by blast
qed

theorem interest_rate_gate_witness:
  "term_ok 15 \<and> parse_number ''12'' = Some (Fin 12) \<and> fle MIN_INTEREST_RATE (Fin 12)
   \<and> fle (Fin 12) MAX_INTEREST_RATE
   \<and> (\<exists>result.
         calculate_monthly_payment (Fin 5000000) (Fin 1000000) 15 (Fin 12) = Inr result
         \<and> handle_interest_rate 1 ''12''
             (Map.empty(1 \<mapsto> \<lparr>loan_amount = Some (Fin 5000000),
                                  down_payment = Some (Fin 1000000),
                                  loan_term = Some 15, interest_rate = None\<rparr>))
           = Returned Map.empty (Results (Fin 5000000) (Fin 1000000) 15 (Fin 12) result) END)"
proof -
  define s0 where "s0 = \<lparr>loan_amount = Some (Fin 5000000), down_payment = Some (Fin 1000000),
                         loan_term = Some 15, interest_rate = None\<rparr>"
  define ss0 where "ss0 = Map.empty((1::int) \<mapsto> s0)"
  have h: "ss0 1 = Some s0" "loan_amount s0 = Some (Fin 5000000)"
    "down_payment s0 = Some (Fin 1000000)" "loan_term s0 = Some 15" "term_ok 15"
    by (simp_all add: ss0_def s0_def term_ok_def MIN_LOAN_TERM_YEARS_def
          MAX_LOAN_TERM_YEARS_def)
  have a: "parse_number ''12'' = Some (Fin 12) \<and> fle MIN_INTEREST_RATE (Fin 12)
             \<and> fle (Fin 12) MAX_INTEREST_RATE"
    by (simp add: parse_12 MIN_rate MAX_rate fle_def feq_def)
  then have "\<exists>r. parse_number ''12'' = Some r \<and> fle MIN_INTEREST_RATE r
               \<and> fle r MAX_INTEREST_RATE" by blast
  then have "\<exists>r result. parse_number ''12'' = Some r
               \<and> calculate_monthly_payment (Fin 5000000) (Fin 1000000) 15 r = Inr result
               \<and> handle_interest_rate 1 ''12'' ss0
                   = Returned (ss0(1 := None))
                       (Results (Fin 5000000) (Fin 1000000) 15 r result) END"
    using interest_rate_gate[where ss=ss0 and chat=1 and msg="''12''", OF h] by blast
  then obtain result where
    "calculate_monthly_payment (Fin 5000000) (Fin 1000000) 15 (Fin 12) = Inr result"
    "handle_interest_rate 1 ''12'' ss0
       = Returned (ss0(1 := None)) (Results (Fin 5000000) (Fin 1000000) 15 (Fin 12) result) END"
    using a by auto
  moreover have "ss0(1 := None) = Map.empty" by (simp add: ss0_def)
  ultimately show ?thesis using a h(5) unfolding ss0_def s0_def by auto
qed

lemma finish_same:
  assumes "convs sys chat = Some st" "st \<noteq> END"
  shows "finish chat sys (Returned (store sys) r st) = (sys, Reply r)"
proof -
  have "(convs sys)(chat \<mapsto> st) = convs sys" using assms(1) by (rule map_upd_triv)
  then show ?thesis using assms(2) by (simp add: finish_def)
qed


lemma not_flt_iff: "a \<noteq> NaN \<Longrightarrow> b \<noteq> NaN \<Longrightarrow> (\<not> flt a b) = fle b a"
  by (cases a; cases b) (auto simp: fle_def feq_def)

lemma not_fle_iff: "a \<noteq> NaN \<Longrightarrow> b \<noteq> NaN \<Longrightarrow> (\<not> fle a b) = flt b a"
  by (cases a; cases b) (auto simp: fle_def feq_def)

lemma failed_validation_handler:
  assumes "ss chat = Some s" "validation_fails st s msg"
    and "parse_number msg \<noteq> Some NaN" "loan_amount s \<noteq> Some NaN"
  shows "\<exists>err. state_handler st chat msg ss = Returned ss err st \<and> is_error_reply err"
proof (cases "parse_number msg")
  case None
  then have "st \<noteq> END" using assms(2) by (simp add: validation_fails_def)
  then show ?thesis using None
    by (cases st)
       (simp_all add: state_handler_def handle_loan_amount_def handle_down_payment_def
          handle_loan_term_def handle_interest_rate_def is_error_reply_def
          get_session_Some[of ss chat s, OF assms(1)])
next
  case (Some v)
  then have v: "v \<noteq> NaN" using assms(3) by auto
  show ?thesis
  proof (cases st)
    case LOAN_AMOUNT
    then have "fle v (Fin 0)"
      using assms(2) Some not_flt_iff[of "Fin 0" v] v by (simp add: validation_fails_def)
    then show ?thesis using Some LOAN_AMOUNT
      by (simp add: state_handler_def handle_loan_amount_def is_error_reply_def)
  next
    case DOWN_PAYMENT
    show ?thesis
    proof (cases "flt v (Fin 0)")
      case True
      then show ?thesis using Some DOWN_PAYMENT
        by (simp add: state_handler_def handle_down_payment_def is_error_reply_def
              get_session_Some[of ss chat s, OF assms(1)])
    next
      case False
      then have "fle (Fin 0) v" using not_flt_iff[of v "Fin 0"] v by simp
      then obtain la where la: "loan_amount s = Some la" "\<not> flt v la"
        using assms(2) Some DOWN_PAYMENT
        by (auto simp: validation_fails_def split: option.splits)
      then have "la \<noteq> NaN" using assms(4) by auto
      then have "fge v la" using la(2) not_flt_iff[of v la] v by (simp add: fge_def)
      then show ?thesis using Some DOWN_PAYMENT False la(1)
        by (simp add: state_handler_def handle_down_payment_def is_error_reply_def
              get_session_Some[of ss chat s, OF assms(1)])
    qed
  next
    case LOAN_TERM
    then show ?thesis using assms(2) Some
      by (auto simp: validation_fails_def state_handler_def handle_loan_term_def
            is_error_reply_def)
  next
    case INTEREST_RATE
    then show ?thesis using assms(2) Some
      by (auto simp: validation_fails_def state_handler_def handle_interest_rate_def
            is_error_reply_def)
  next
    case END
    then show ?thesis using assms(2) Some by (simp add: validation_fails_def)
  qed
qed

text \<open>
  Apart from \<open>NaN\<close>, a text that fails the validation of the current step leaves the
  system as it was: the handler returns an error reply and the same step, the session
  store and the conversation state are unchanged, and nothing is raised.
\<close>

lemma failed_validation_keeps_state:
  assumes "convs sys chat = Some st" "store sys chat = Some s" "validation_fails st s msg"
    and "parse_number msg \<noteq> Some NaN" "loan_amount s \<noteq> Some NaN"
  shows "\<exists>err. is_error_reply err
           \<and> state_handler st chat msg (store sys) = Returned (store sys) err st
           \<and> process_update chat (Text msg) sys = (sys, Reply err)"
proof -
  from failed_validation_handler[where ss="store sys" and chat=chat, OF assms(2,3,4,5)]
  obtain err where
    e: "state_handler st chat msg (store sys) = Returned (store sys) err st" "is_error_reply err"
    by blast
  have "st \<noteq> END" using assms(3) by (auto simp: validation_fails_def split: option.splits)
  then have "process_update chat (Text msg) sys = (sys, Reply err)"
    using finish_same[OF assms(1)] by (simp add: pu_text_some[OF assms(1)] e(1))
  then show ?thesis using e by blast
qed

lemma parse_6000000: "parse_number ''6000000'' = Some (Fin 6000000)"
  using rnd_int[of 6000000] by (simp add: parse_defs)

lemma too_large_down_payment_rejected:
  "validation_fails DOWN_PAYMENT (new_session\<lparr>loan_amount := Some (Fin 5000000)\<rparr>) ''6000000''
   \<and> process_update 1 (Text ''6000000'')
         \<lparr>convs = Map.empty(1 \<mapsto> DOWN_PAYMENT),
          store = Map.empty(1 \<mapsto> new_session\<lparr>loan_amount := Some (Fin 5000000)\<rparr>)\<rparr>
       = (\<lparr>convs = Map.empty(1 \<mapsto> DOWN_PAYMENT),
           store = Map.empty(1 \<mapsto> new_session\<lparr>loan_amount := Some (Fin 5000000)\<rparr>)\<rparr>,
          Reply (DownPaymentTooLarge (Fin 6000000) (Fin 5000000)))"
  by (simp add: validation_fails_def parse_6000000 process_update_def state_handler_def
        handle_down_payment_def get_session_def finish_def fge_def fle_def feq_def
        new_session_def)

text \<open>
  Claim C2 fails on the code. The text \<open>nan\<close> parses to the float \<open>NaN\<close>, which is not
  greater than 0, so the validation of the loan-amount step fails; yet the turn is
  answered with the confirmation, not an error reply, \<open>NaN\<close> is stored as the loan amount
  and the conversation moves on to the down-payment step. The same happens at the
  down-payment step, where \<open>NaN\<close> is neither at least 0 nor below the stored loan amount.
\<close>

theorem nan_turn_not_rejected:
  "run [(1, StartCmd)] init
     = \<lparr>convs = Map.empty(1 \<mapsto> LOAN_AMOUNT), store = Map.empty(1 \<mapsto> new_session)\<rparr>
   \<and> parse_number ''nan'' = Some NaN \<and> \<not> flt (Fin 0) NaN
   \<and> process_update 1 (Text ''nan'')
         \<lparr>convs = Map.empty(1 \<mapsto> LOAN_AMOUNT), store = Map.empty(1 \<mapsto> new_session)\<rparr>
       = (\<lparr>convs = Map.empty(1 \<mapsto> DOWN_PAYMENT),
           store = Map.empty(1 \<mapsto> new_session\<lparr>loan_amount := Some NaN\<rparr>)\<rparr>,
          Reply (LoanAmountOk NaN))
   \<and> \<not> is_error_reply (LoanAmountOk NaN)
   \<and> \<not> (fle (Fin 0) NaN \<and> flt NaN (Fin 5000000))
   \<and> process_update 1 (Text ''nan'')
         \<lparr>convs = Map.empty(1 \<mapsto> DOWN_PAYMENT),
          store = Map.empty(1 \<mapsto> new_session\<lparr>loan_amount := Some (Fin 5000000)\<rparr>)\<rparr>
       = (\<lparr>convs = Map.empty(1 \<mapsto> LOAN_TERM),
           store = Map.empty(1 \<mapsto> new_session\<lparr>loan_amount := Some (Fin 5000000),
                                                   down_payment := Some NaN\<rparr>)\<rparr>,
          Reply (DownPaymentOk NaN))
   \<and> \<not> is_error_reply (DownPaymentOk NaN)"
proof -
  have "run [(1, StartCmd)] init
          = \<lparr>convs = Map.empty(1 \<mapsto> LOAN_AMOUNT), store = Map.empty(1 \<mapsto> new_session)\<rparr>"
    by (simp add: init_def pu_start)
  then show ?thesis
    by (simp add: parse_nan process_update_def state_handler_def
          handle_loan_amount_def handle_down_payment_def get_session_def finish_def
          is_error_reply_def fle_def feq_def fge_def new_session_def)
qed


text \<open>
  Claim C3. In every system state reached from the initial one by any sequence of turns of
  any chats: a chat without a conversation has no session; a chat in a conversation has a
  session in which the field of a step is set if and only if the conversation is past that
  step, so fields are set in order; the interest rate is never left set; and at the
  interest-rate step the loan amount, the down payment and the term are set to values the
  handlers accepted.
\<close>

theorem step_order_invariant:
  "(case convs (run ts init) chat of
      None \<Rightarrow> store (run ts init) chat = None
    | Some st \<Rightarrow>
        (\<exists>s. store (run ts init) chat = Some s
           \<and> (loan_amount s \<noteq> None \<longleftrightarrow> st \<in> {DOWN_PAYMENT, LOAN_TERM, INTEREST_RATE})
           \<and> (down_payment s \<noteq> None \<longleftrightarrow> st \<in> {LOAN_TERM, INTEREST_RATE})
           \<and> (loan_term s \<noteq> None \<longleftrightarrow> st = INTEREST_RATE)
           \<and> interest_rate s = None
           \<and> (st = INTEREST_RATE \<longrightarrow>
                (\<exists>a d y. loan_amount s = Some a \<and> loan_ok a
                   \<and> down_payment s = Some d \<and> down_ok a d
                   \<and> loan_term s = Some y \<and> term_ok y))))"
proof -
  have "invariant (run ts init)" using invariant_init by (rule run_invariant)
  then have ok: "session_ok (convs (run ts init) chat) (store (run ts init) chat)"
    by (simp add: invariant_def)
  show ?thesis
  proof (cases "convs (run ts init) chat")
    case None
    then show ?thesis using ok by (simp add: session_ok_simps)
  next
    case (Some st)
    then show ?thesis using ok by (cases st) (auto simp: session_ok_simps)
  qed
qed

lemma parse_5000000_plain: "parse_number ''5000000'' = Some (Fin 5000000)"
  using rnd_int[of 5000000] by (simp add: parse_defs)

lemma parse_1000000: "parse_number ''1000000'' = Some (Fin 1000000)"
  using rnd_int[of 1000000] by (simp add: parse_defs)

lemma parse_15: "parse_number ''15'' = Some (Fin 15)"
  using rnd_int[of 15] by (simp add: parse_defs)

lemma scenario_state:
  "run [(1, StartCmd), (1, Text ''5000000''), (1, Text ''6000000''), (1, Text ''1000000''),
        (1, Text ''15'')] init
   = \<lparr>convs = Map.empty(1 \<mapsto> INTEREST_RATE),
      store = Map.empty(1 \<mapsto> \<lparr>loan_amount = Some (Fin 5000000),
                                 down_payment = Some (Fin 1000000),
                                 loan_term = Some 15, interest_rate = None\<rparr>)\<rparr>"
  by (simp add: init_def process_update_def finish_def start_ok state_handler_def
        handle_loan_amount_def handle_down_payment_def handle_loan_term_def get_session_def
        parse_5000000_plain parse_6000000 parse_1000000 parse_15 new_session_def
        fle_def feq_def fge_def MIN_LOAN_TERM_YEARS_def MAX_LOAN_TERM_YEARS_def)

theorem step_order_invariant_witness:
  "convs (run [(1, StartCmd), (1, Text ''5000000''), (1, Text ''6000000''),
               (1, Text ''1000000''), (1, Text ''15'')] init) 1 = Some INTEREST_RATE
   \<and> (\<exists>s a d y.
         store (run [(1, StartCmd), (1, Text ''5000000''), (1, Text ''6000000''),
                     (1, Text ''1000000''), (1, Text ''15'')] init) 1 = Some s
         \<and> loan_amount s = Some a \<and> loan_ok a \<and> down_payment s = Some d \<and> down_ok a d
         \<and> loan_term s = Some y \<and> term_ok y \<and> interest_rate s = None)"
proof -
  let ?ts = "[(1, StartCmd), (1, Text ''5000000''), (1, Text ''6000000''),
              (1, Text ''1000000''), (1, Text ''15'')]"
  have c: "convs (run ?ts init) 1 = Some INTEREST_RATE" by (subst scenario_state) simp
  from step_order_invariant[of ?ts 1] show ?thesis unfolding c by auto
qed


text \<open>
  Claim C4. On a valid interest-rate turn the calculator is called with the three stored
  fields and the rate, its result is sent as the report, and afterwards the chat has neither
  a session nor a conversation, so that every following text turn gets the greeting.
\<close>

theorem valid_rate_completes:
  assumes "convs sys chat = Some INTEREST_RATE" "store sys chat = Some s"
    and "loan_amount s = Some a" "down_payment s = Some d" "loan_term s = Some y" "term_ok y"
    and "parse_number msg = Some rate" "rate_ok rate"
  shows "\<exists>result.
           calculate_monthly_payment a d y rate = Inr result
           \<and> process_update chat (Text msg) sys
               = (\<lparr>convs = (convs sys)(chat := None), store = (store sys)(chat := None)\<rparr>,
                  Reply (Results a d y rate result))
           \<and> (\<forall>msg2. process_update chat (Text msg2)
                         \<lparr>convs = (convs sys)(chat := None), store = (store sys)(chat := None)\<rparr>
                       = (\<lparr>convs = (convs sys)(chat := None),
                           store = (store sys)(chat := None)\<rparr>, Reply Greeting))"
proof -
  from calc_accepted[OF assms(6,8)] obtain result where
    r: "calculate_monthly_payment a d y rate = Inr result" by blast
  note out = handle_interest_rate_out[where ss="store sys" and chat=chat, OF assms(2,3,4,5)]
  have "process_update chat (Text msg) sys
          = (\<lparr>convs = (convs sys)(chat := None), store = (store sys)(chat := None)\<rparr>,
             Reply (Results a d y rate result))"
    by (simp add: pu_text_some[OF assms(1)] state_handler_def out assms(7,8) r finish_def)
  moreover have "process_update chat (Text msg2)
                   \<lparr>convs = (convs sys)(chat := None), store = (store sys)(chat := None)\<rparr>
                 = (\<lparr>convs = (convs sys)(chat := None), store = (store sys)(chat := None)\<rparr>,
                    Reply Greeting)" for msg2
    by (rule pu_text_none) simp
  ultimately show ?thesis using r by blast
qed

theorem valid_rate_completes_witness:
  "term_ok 15 \<and> parse_number ''12'' = Some (Fin 12) \<and> rate_ok (Fin 12)
   \<and> (\<exists>result.
         calculate_monthly_payment (Fin 5000000) (Fin 1000000) 15 (Fin 12) = Inr result
         \<and> process_update 1 (Text ''12'')
             \<lparr>convs = Map.empty(1 \<mapsto> INTEREST_RATE),
              store = Map.empty(1 \<mapsto> \<lparr>loan_amount = Some (Fin 5000000),
                                         down_payment = Some (Fin 1000000),
                                         loan_term = Some 15, interest_rate = None\<rparr>)\<rparr>
           = (\<lparr>convs = Map.empty, store = Map.empty\<rparr>,
              Reply (Results (Fin 5000000) (Fin 1000000) 15 (Fin 12) result))
         \<and> process_update 1 (Text ''hello'') \<lparr>convs = Map.empty, store = Map.empty\<rparr>
           = (\<lparr>convs = Map.empty, store = Map.empty\<rparr>, Reply Greeting))"
proof -
  define s0 where "s0 = \<lparr>loan_amount = Some (Fin 5000000), down_payment = Some (Fin 1000000),
                         loan_term = Some 15, interest_rate = None\<rparr>"
  define sys0 where "sys0 = \<lparr>convs = Map.empty((1::int) \<mapsto> INTEREST_RATE),
                             store = Map.empty((1::int) \<mapsto> s0)\<rparr>"
  have h: "convs sys0 1 = Some INTEREST_RATE" "store sys0 1 = Some s0"
    "loan_amount s0 = Some (Fin 5000000)" "down_payment s0 = Some (Fin 1000000)"
    "loan_term s0 = Some 15" "term_ok 15" "parse_number ''12'' = Some (Fin 12)"
    "rate_ok (Fin 12)"
    by (simp_all add: sys0_def s0_def term_ok_def MIN_LOAN_TERM_YEARS_def
          MAX_LOAN_TERM_YEARS_def parse_12 rate_ok_def MIN_rate MAX_rate fle_def feq_def)
  have e: "(convs sys0)(1 := None) = Map.empty" "(store sys0)(1 := None) = Map.empty"
    by (simp_all add: sys0_def)
  from valid_rate_completes[OF h] show ?thesis
    unfolding e using h(6,7,8) unfolding sys0_def s0_def by blast
qed


section \<open>Isolation of chats\<close>

lemma start_view:
  "outcome_view chat (start chat sa) = outcome_view chat (start chat sb)"
  by (simp add: start_ok outcome_view_def)

lemma cancel_view:
  "outcome_view chat (cancel chat sa) = outcome_view chat (cancel chat sb)"
  by (simp add: cancel_ok outcome_view_def)

lemma get_session_view:
  assumes "sa chat = sb chat"
  shows "snd (get_session chat sa) = snd (get_session chat sb)"
    and "fst (get_session chat sa) chat = fst (get_session chat sb) chat"
  using assms by (simp_all add: get_session_def split: option.splits)

lemma handle_loan_amount_view:
  assumes "sa chat = sb chat"
  shows "outcome_view chat (handle_loan_amount chat msg sa)
           = outcome_view chat (handle_loan_amount chat msg sb)"
proof (cases "parse_number msg")
  case None
  then show ?thesis using assms by (simp add: handle_loan_amount_def outcome_view_def)
next
  case (Some a)
  then show ?thesis using assms get_session_view(1)[of sa chat sb, OF assms]
    by (simp add: handle_loan_amount_def outcome_view_def case_prod_beta)
qed

lemma handle_down_payment_view:
  assumes "sa chat = sb chat"
  shows "outcome_view chat (handle_down_payment chat msg sa)
           = outcome_view chat (handle_down_payment chat msg sb)"
proof -
  note g = get_session_view[of sa chat sb, OF assms]
  show ?thesis
  proof (cases "parse_number msg")
    case None
    then show ?thesis using g
      by (simp add: handle_down_payment_def outcome_view_def case_prod_beta)
  next
    case (Some d)
    show ?thesis
    proof (cases "loan_amount (snd (get_session chat sb))")
      case None
      then show ?thesis using g Some
        by (simp add: handle_down_payment_def outcome_view_def case_prod_beta)
    next
      case (Some la)
      then show ?thesis using g \<open>parse_number msg = Some d\<close>
        by (simp add: handle_down_payment_def outcome_view_def case_prod_beta)
    qed
  qed
qed

lemma handle_loan_term_view:
  assumes "sa chat = sb chat"
  shows "outcome_view chat (handle_loan_term chat msg sa)
           = outcome_view chat (handle_loan_term chat msg sb)"
proof -
  note g = get_session_view[of sa chat sb, OF assms]
  show ?thesis
  proof (cases "parse_number msg")
    case None
    then show ?thesis using assms by (simp add: handle_loan_term_def outcome_view_def)
  next
    case (Some yrs)
    then show ?thesis using g assms
      by (cases "py_int yrs") (simp_all add: handle_loan_term_def outcome_view_def case_prod_beta)
  qed
qed

lemma handle_interest_rate_view:
  assumes "sa chat = sb chat"
  shows "outcome_view chat (handle_interest_rate chat msg sa)
           = outcome_view chat (handle_interest_rate chat msg sb)"
proof -
  note g = get_session_view[of sa chat sb, OF assms]
  show ?thesis
  proof (cases "parse_number msg")
    case None
    then show ?thesis using assms by (simp add: handle_interest_rate_def outcome_view_def)
  next
    case (Some rate)
    define s where "s = snd (get_session chat sb)"
    have s1: "snd (get_session chat sa) = s" using g(1) by (simp add: s_def)
    show ?thesis
    proof (cases "loan_amount s")
      case None
      then show ?thesis using Some assms
        by (simp add: handle_interest_rate_def outcome_view_def case_prod_beta Let_def s1
              s_def[symmetric])
    next
      case la: (Some la)
      show ?thesis
      proof (cases "down_payment s")
        case None
        then show ?thesis using Some assms la
          by (simp add: handle_interest_rate_def outcome_view_def case_prod_beta Let_def s1
                s_def[symmetric])
      next
        case dp: (Some dp)
        show ?thesis
        proof (cases "loan_term s")
          case None
          then show ?thesis using Some assms la dp
            by (simp add: handle_interest_rate_def outcome_view_def case_prod_beta Let_def s1
                  s_def[symmetric])
        next
          case lt: (Some lt)
          show ?thesis using Some assms la dp lt
            by (cases "calculate_monthly_payment la dp lt rate")
               (simp_all add: handle_interest_rate_def outcome_view_def case_prod_beta Let_def
                  s1 s_def[symmetric] clear_session_def)
        qed
      qed
    qed
  qed
qed

lemma state_handler_view:
  assumes "sa chat = sb chat"
  shows "outcome_view chat (state_handler st chat msg sa)
           = outcome_view chat (state_handler st chat msg sb)"
proof (cases st)
  case LOAN_AMOUNT
  then show ?thesis
    using handle_loan_amount_view[where sa=sa and sb=sb and chat=chat and msg=msg, OF assms]
    by (simp add: state_handler_def)
next
  case DOWN_PAYMENT
  then show ?thesis
    using handle_down_payment_view[where sa=sa and sb=sb and chat=chat and msg=msg, OF assms]
    by (simp add: state_handler_def)
next
  case LOAN_TERM
  then show ?thesis
    using handle_loan_term_view[where sa=sa and sb=sb and chat=chat and msg=msg, OF assms]
    by (simp add: state_handler_def)
next
  case INTEREST_RATE
  then show ?thesis
    using handle_interest_rate_view[where sa=sa and sb=sb and chat=chat and msg=msg, OF assms]
    by (simp add: state_handler_def)
next
  case END
  then show ?thesis
    using handle_interest_rate_view[where sa=sa and sb=sb and chat=chat and msg=msg, OF assms]
    by (simp add: state_handler_def)
qed

lemma finish_view:
  assumes "outcome_view chat o1 = outcome_view chat o2" "convs sys1 chat = convs sys2 chat"
  shows "snd (finish chat sys1 o1) = snd (finish chat sys2 o2)
         \<and> convs (fst (finish chat sys1 o1)) chat = convs (fst (finish chat sys2 o2)) chat
         \<and> store (fst (finish chat sys1 o1)) chat = store (fst (finish chat sys2 o2)) chat"
proof (cases o1)
  case r1: (Returned s1 r1 st1)
  then obtain s2 where o2: "o2 = Returned s2 r1 st1" and s: "s1 chat = s2 chat"
    using assms(1) by (cases o2) (simp_all add: outcome_view_def)
  show ?thesis using assms(2) s by (simp add: r1 o2 finish_def)
next
  case e1: (Raised s1 e1)
  then obtain s2 where o2: "o2 = Raised s2 e1" and s: "s1 chat = s2 chat"
    using assms(1) by (cases o2) (simp_all add: outcome_view_def)
  show ?thesis using assms(2) s by (simp add: e1 o2 finish_def)
qed

lemma process_update_local:
  assumes "convs sys1 chat = convs sys2 chat" "store sys1 chat = store sys2 chat"
  shows "snd (process_update chat t sys1) = snd (process_update chat t sys2)
         \<and> convs (fst (process_update chat t sys1)) chat
             = convs (fst (process_update chat t sys2)) chat
         \<and> store (fst (process_update chat t sys1)) chat
             = store (fst (process_update chat t sys2)) chat"
proof (cases t)
  case StartCmd
  then show ?thesis by (simp add: pu_start)
next
  case CancelCmd
  then show ?thesis using assms
    by (cases "convs sys2 chat") (simp_all add: pu_cancel_none pu_cancel_some)
next
  case HelpCmd
  then show ?thesis using assms by (simp add: pu_help)
next
  case OtherCmd
  then show ?thesis using assms by (simp add: pu_other)
next
  case (Text msg)
  show ?thesis
  proof (cases "convs sys2 chat")
    case None
    then show ?thesis using assms by (simp add: Text pu_text_none)
  next
    case (Some st)
    have v: "outcome_view chat (state_handler st chat msg (store sys1))
               = outcome_view chat (state_handler st chat msg (store sys2))"
      using state_handler_view[where sa="store sys1" and sb="store sys2" and chat=chat,
          OF assms(2)] .
    show ?thesis
      using finish_view[OF v assms(1)] Some assms(1) by (simp add: Text pu_text_some)
  qed
qed

lemma replies_local:
  assumes "convs sys1 A = convs sys2 A" "store sys1 A = store sys2 A"
  shows "replies A ts sys1 = replies A (turns_of A ts) sys2
         \<and> convs (run ts sys1) A = convs (run (turns_of A ts) sys2) A
         \<and> store (run ts sys1) A = store (run (turns_of A ts) sys2) A"
  using assms
proof (induction ts arbitrary: sys1 sys2)
  case Nil
  then show ?case by (simp add: turns_of_def)
next
  case (Cons ct ts)
  obtain c t where ct: "ct = (c, t)" by (cases ct)
  show ?case
  proof (cases "c = A")
    case True
    from process_update_local[OF Cons.prems, of t] have
      e: "snd (process_update A t sys1) = snd (process_update A t sys2)"
      and l: "convs (fst (process_update A t sys1)) A = convs (fst (process_update A t sys2)) A"
        "store (fst (process_update A t sys1)) A = store (fst (process_update A t sys2)) A"
      by simp_all
    from Cons.IH[OF l] show ?thesis using e True by (simp add: ct turns_of_def)
  next
    case False
    then have "A \<noteq> c" by simp
    from process_update_frame[OF this, of t sys1] Cons.prems have
      l: "convs (fst (process_update c t sys1)) A = convs sys2 A"
        "store (fst (process_update c t sys1)) A = store sys2 A"
      by simp_all
    from Cons.IH[OF l] show ?thesis using False by (simp add: ct turns_of_def)
  qed
qed

text \<open>
  Claim C9. A turn of chat \<open>A\<close> leaves the conversation state and the stored session of
  every other chat \<open>B\<close> as they were (whether it exists, and each of its fields). What the
  turn does for \<open>A\<close>, the reply or fault and the state and session of \<open>A\<close> afterwards, is
  the same in any two systems that agree on the state and session of \<open>A\<close>, whatever they
  hold for other chats. Over a whole run: what \<open>A\<close> observes of its own turns, interleaved
  in any way with the turns of other chats, is what it observes when its turns are
  processed alone, and it ends with the same session.
\<close>

theorem sessions_isolated:
  "(A \<noteq> B \<longrightarrow>
      convs (fst (process_update A t sys)) B = convs sys B
      \<and> store (fst (process_update A t sys)) B = store sys B)
   \<and> (convs sys1 A = convs sys2 A \<and> store sys1 A = store sys2 A \<longrightarrow>
        snd (process_update A t sys1) = snd (process_update A t sys2)
        \<and> convs (fst (process_update A t sys1)) A = convs (fst (process_update A t sys2)) A
        \<and> store (fst (process_update A t sys1)) A = store (fst (process_update A t sys2)) A)
   \<and> replies A ts sys = replies A (turns_of A ts) sys
   \<and> store (run ts sys) A = store (run (turns_of A ts) sys) A"
proof -
  have 1: "convs (fst (process_update A t sys)) B = convs sys B
           \<and> store (fst (process_update A t sys)) B = store sys B" if "A \<noteq> B"
    using that process_update_frame[of B A t sys] by simp
  have 2: "snd (process_update A t sys1) = snd (process_update A t sys2)
        \<and> convs (fst (process_update A t sys1)) A = convs (fst (process_update A t sys2)) A
        \<and> store (fst (process_update A t sys1)) A = store (fst (process_update A t sys2)) A"
    if "convs sys1 A = convs sys2 A" "store sys1 A = store sys2 A"
    using that by (rule process_update_local)
  have 3: "replies A ts sys = replies A (turns_of A ts) sys
           \<and> store (run ts sys) A = store (run (turns_of A ts) sys) A"
    using replies_local[of sys A sys ts] by simp
  show ?thesis using 1 2 3 by simp
qed

lemma parse_100: "parse_number ''100'' = Some (Fin 100)"
  using rnd_int[of 100] by (simp add: parse_defs)

theorem sessions_isolated_witness:
  "(1::int) \<noteq> 2
   \<and> store (fst (process_update 1 (Text ''1000000'')
        \<lparr>convs = Map.empty(1 \<mapsto> DOWN_PAYMENT, 2 \<mapsto> DOWN_PAYMENT),
         store = Map.empty(1 \<mapsto> new_session\<lparr>loan_amount := Some (Fin 5000000)\<rparr>,
                           2 \<mapsto> new_session\<lparr>loan_amount := Some (Fin 100)\<rparr>)\<rparr>)) 2
       = Some (new_session\<lparr>loan_amount := Some (Fin 100)\<rparr>)
   \<and> snd (process_update 1 (Text ''1000000'')
        \<lparr>convs = Map.empty(1 \<mapsto> DOWN_PAYMENT, 2 \<mapsto> DOWN_PAYMENT),
         store = Map.empty(1 \<mapsto> new_session\<lparr>loan_amount := Some (Fin 5000000)\<rparr>,
                           2 \<mapsto> new_session\<lparr>loan_amount := Some (Fin 100)\<rparr>)\<rparr>)
       = snd (process_update 1 (Text ''1000000'')
        \<lparr>convs = Map.empty(1 \<mapsto> DOWN_PAYMENT),
         store = Map.empty(1 \<mapsto> new_session\<lparr>loan_amount := Some (Fin 5000000)\<rparr>)\<rparr>)
   \<and> replies 1 [(1, StartCmd), (2, StartCmd), (2, Text ''100''), (1, Text ''5000000'')] init
       = replies 1 [(1, StartCmd), (1, Text ''5000000'')] init"
proof -
  define sysAB where "sysAB = \<lparr>convs = Map.empty((1::int) \<mapsto> DOWN_PAYMENT, 2 \<mapsto> DOWN_PAYMENT),
         store = Map.empty((1::int) \<mapsto> new_session\<lparr>loan_amount := Some (Fin 5000000)\<rparr>,
                           2 \<mapsto> new_session\<lparr>loan_amount := Some (Fin 100)\<rparr>)\<rparr>"
  define sysA where "sysA = \<lparr>convs = Map.empty((1::int) \<mapsto> DOWN_PAYMENT),
         store = Map.empty((1::int) \<mapsto> new_session\<lparr>loan_amount := Some (Fin 5000000)\<rparr>)\<rparr>"
  have h: "(1::int) \<noteq> 2" "convs sysAB 1 = convs sysA 1 \<and> store sysAB 1 = store sysA 1"
    by (simp_all add: sysAB_def sysA_def)
  have b: "store sysAB 2 = Some (new_session\<lparr>loan_amount := Some (Fin 100)\<rparr>)"
    by (simp add: sysAB_def)
  have t: "turns_of 1 [(1, StartCmd), (2, StartCmd), (2, Text ''100''), (1, Text ''5000000'')]
             = [(1, StartCmd), (1, Text ''5000000'')]"
    by (simp add: turns_of_def)
  have "store (fst (process_update 1 (Text ''1000000'') sysAB)) 2 = store sysAB 2"
    using sessions_isolated[where A=1 and B=2 and t="Text ''1000000''" and sys=sysAB] h(1)
    by blast
  moreover have "snd (process_update 1 (Text ''1000000'') sysAB)
                   = snd (process_update 1 (Text ''1000000'') sysA)"
    using sessions_isolated[where A=1 and t="Text ''1000000''" and ?sys1.0=sysAB and ?sys2.0=sysA]
      h(2) by blast
  moreover have "replies 1 [(1, StartCmd), (2, StartCmd), (2, Text ''100''),
                            (1, Text ''5000000'')] init
                   = replies 1 [(1, StartCmd), (1, Text ''5000000'')] init"
    using sessions_isolated[where A=1 and sys=init
        and ts="[(1, StartCmd), (2, StartCmd), (2, Text ''100''), (1, Text ''5000000'')]"]
    unfolding t by blast
  ultimately show ?thesis using h(1) b unfolding sysAB_def sysA_def by simp
qed

section \<open>Unset fields\<close>

lemma fdiv_err: "fdiv a b = Inl e \<Longrightarrow> e = ZeroDivisionError"
  by (cases a; cases b) (auto split: if_splits)

lemma int_to_float_err: "int_to_float n = Inl e \<Longrightarrow> e = OverflowError"
  by (auto simp: int_to_float_def split: pyfloat.splits)

lemma float_pow_err: "float_pow x n = Inl e \<Longrightarrow> e \<noteq> TypeError"
  by (auto simp: float_pow_def Let_def int_to_float_def
           split: sum.splits pyfloat.splits if_splits)

lemma bind_r_err:
  assumes "bind_r m f = Inl e"
  shows "m = Inl e \<or> (\<exists>v. m = Inr v \<and> f v = Inl e)"
  using assms by (cases m) (simp_all add: bind_r_def)

lemma calc_no_type_error: "calculate_monthly_payment a d y r \<noteq> Inl TypeError"
proof
  assume "calculate_monthly_payment a d y r = Inl TypeError"
  then show False
    unfolding calculate_monthly_payment_def Let_def
    by (auto simp del: fdiv.simps fadd.simps fmul.simps
             dest!: bind_r_err dest: fdiv_err int_to_float_err float_pow_err
             split: if_splits)
qed

lemma parse_5: "parse_number ''5'' = Some (Fin 5)"
  using rnd_int[of 5] by (simp add: parse_defs)


text \<open>
  Claim C10. A session always has its four fields, so the default of
  \<open>session.get\<close> for the loan amount is never taken. With the loan amount set,
  \<open>handle_down_payment\<close> raises nothing, on any text; with the loan amount, the down
  payment and the term set, \<open>handle_interest_rate\<close> does not raise \<open>TypeError\<close>, on any
  text; and in every state reached from the initial one no turn of any chat ends in a
  fault. This rests on the step-order invariant: \<open>get_session\<close> creates a session with
  every field \<open>None\<close>, and on such a session \<open>handle_down_payment\<close> raises \<open>TypeError\<close> at
  its comparison with the loan amount, and \<open>handle_interest_rate\<close> raises it in the
  calculator call, after it has stored the rate.
\<close>

theorem no_type_error_with_fields_set:
  "(ss chat = Some s \<and> loan_amount s = Some la
      \<longrightarrow> (\<forall>ss' e. handle_down_payment chat msg ss \<noteq> Raised ss' e))
   \<and> (ss chat = Some s \<and> loan_amount s = Some la \<and> down_payment s = Some dp
        \<and> loan_term s = Some lt
      \<longrightarrow> (\<forall>ss'. handle_interest_rate chat msg ss \<noteq> Raised ss' TypeError))
   \<and> (invariant sys \<longrightarrow> (\<forall>e. snd (process_update chat t sys) \<noteq> Fault e))
   \<and> (\<forall>e. snd (process_update chat t (run ts init)) \<noteq> Fault e)
   \<and> get_session chat Map.empty = (Map.empty(chat \<mapsto> new_session), new_session)
   \<and> loan_amount new_session = None \<and> down_payment new_session = None
   \<and> loan_term new_session = None \<and> interest_rate new_session = None
   \<and> handle_down_payment chat ''5'' (Map.empty(chat \<mapsto> new_session))
       = Raised (Map.empty(chat \<mapsto> new_session)) TypeError
   \<and> handle_interest_rate chat ''12'' (Map.empty(chat \<mapsto> new_session))
       = Raised (Map.empty(chat \<mapsto> new_session\<lparr>interest_rate := Some (Fin 12)\<rparr>)) TypeError"
proof -
  have 1: "handle_down_payment chat msg ss \<noteq> Raised ss' e"
    if "ss chat = Some s" "loan_amount s = Some la" for ss' e
    by (simp add: handle_down_payment_out[where ss=ss and chat=chat, OF that]
          split: option.splits)
  have 2: "handle_interest_rate chat msg ss \<noteq> Raised ss' TypeError"
    if "ss chat = Some s" "loan_amount s = Some la" "down_payment s = Some dp"
      "loan_term s = Some lt" for ss'
    using calc_no_type_error[of la dp lt]
    by (auto simp: handle_interest_rate_out[where ss=ss and chat=chat, OF that]
          split: option.splits sum.splits)
  have "invariant (run ts init)" using invariant_init by (rule run_invariant)
  then have 3: "\<forall>e. snd (process_update chat t (run ts init)) \<noteq> Fault e"
    by (rule process_update_invariant(2))
  have 4: "handle_down_payment chat ''5'' (Map.empty(chat \<mapsto> new_session))
             = Raised (Map.empty(chat \<mapsto> new_session)) TypeError"
    by (simp add: handle_down_payment_def get_session_def parse_5 new_session_def)
  have 5: "handle_interest_rate chat ''12'' (Map.empty(chat \<mapsto> new_session))
             = Raised (Map.empty(chat \<mapsto> new_session\<lparr>interest_rate := Some (Fin 12)\<rparr>))
                 TypeError"
    by (simp add: handle_interest_rate_def get_session_def parse_12 new_session_def
          MIN_rate MAX_rate fle_def feq_def)
  have 6: "\<forall>e. snd (process_update chat t sys) \<noteq> Fault e" if "invariant sys"
    using that by (rule process_update_invariant(2))
  have 7: "get_session chat Map.empty = (Map.empty(chat \<mapsto> new_session), new_session)"
    by (simp add: get_session_def)
  have 8: "loan_amount new_session = None \<and> down_payment new_session = None
           \<and> loan_term new_session = None \<and> interest_rate new_session = None"
    by (simp add: new_session_def)
  show ?thesis
    using 1 2 3 4 5 6 7 8 by blast
qed

theorem no_type_error_with_fields_set_witness:
  "loan_amount (new_session\<lparr>loan_amount := Some (Fin 5000000)\<rparr>) = Some (Fin 5000000)
   \<and> (\<forall>ss' e. handle_down_payment 1 ''1000000''
                  (Map.empty(1 \<mapsto> new_session\<lparr>loan_amount := Some (Fin 5000000)\<rparr>))
                \<noteq> Raised ss' e)
   \<and> (\<forall>ss'. handle_interest_rate 1 ''12''
                (Map.empty(1 \<mapsto> \<lparr>loan_amount = Some (Fin 5000000),
                                     down_payment = Some (Fin 1000000),
                                     loan_term = Some 15, interest_rate = None\<rparr>))
              \<noteq> Raised ss' TypeError)"
proof -
  define s1 where "s1 = new_session\<lparr>loan_amount := Some (Fin 5000000)\<rparr>"
  define s3 where "s3 = \<lparr>loan_amount = Some (Fin 5000000), down_payment = Some (Fin 1000000),
                         loan_term = Some 15, interest_rate = None\<rparr>"
  have a: "(Map.empty((1::int) \<mapsto> s1)) 1 = Some s1 \<and> loan_amount s1 = Some (Fin 5000000)"
    by (simp add: s1_def)
  have b: "(Map.empty((1::int) \<mapsto> s3)) 1 = Some s3 \<and> loan_amount s3 = Some (Fin 5000000)
            \<and> down_payment s3 = Some (Fin 1000000) \<and> loan_term s3 = Some 15"
    by (simp add: s3_def)
  have "\<forall>ss' e. handle_down_payment 1 ''1000000'' (Map.empty(1 \<mapsto> s1)) \<noteq> Raised ss' e"
    using no_type_error_with_fields_set[of "Map.empty(1 \<mapsto> s1)" 1 s1 "Fin 5000000"
        "''1000000''"] a by blast
  moreover have "\<forall>ss'. handle_interest_rate 1 ''12'' (Map.empty(1 \<mapsto> s3))
                   \<noteq> Raised ss' TypeError"
    using no_type_error_with_fields_set[of "Map.empty(1 \<mapsto> s3)" 1 s3 "Fin 5000000"
        "''12''" "Fin 1000000" 15] b by blast
  ultimately show ?thesis using a unfolding s1_def s3_def by blast
qed




end
